theory Spec2Isabelle
  imports Complex_Main "HOL-Library.Multiset" "HOL-Library.Extended_Nat"
begin

section \<open>The duration parser: \<open>parseTimeToMs\<close>\<close>

text \<open>
  The source (the same text in \<^verbatim>\<open>src/moderation.ts\<close> and in the second variant of the
  program):
  \<^verbatim>\<open>
  function parseTimeToMs(timeStr: string): number {
    const match = timeStr.match(/(\d+)([smh])/);
    if (!match) return 0;
    const value = parseInt(match[1]);
    const unit = match[2];
    switch (unit) {
      case "s": return value * 1000;
      case "m": return value * 60 * 1000;
      case "h": return value * 60 * 60 * 1000;
      default:  return 0;
    }
  }
  \<close>
  The regular expression has no anchors and no \<^verbatim>\<open>g\<close> flag, so \<^verbatim>\<open>match\<close> returns the
  first match of a search: the leftmost start position at which the pattern can match, and
  at that position the greedy choice for \<^verbatim>\<open>\d+\<close>, backtracking to shorter digit runs while
  the unit does not follow.
\<close>

definition is_digit :: "char \<Rightarrow> bool" where
  \<comment> \<open>the class \<^verbatim>\<open>\d\<close>: the ten ASCII digits\<close>
  "is_digit c = (c \<in> set ''0123456789'')"

definition is_unit_char :: "char \<Rightarrow> bool" where
  \<comment> \<open>the class \<^verbatim>\<open>[smh]\<close>\<close>
  "is_unit_char c = (c \<in> set ''smh'')"

text \<open>
  \<open>try_lengths s k\<close>: the pattern at the start of \<open>s\<close>, with \<open>k\<close> digits available:
  the longest run first, then one digit less, as the backtracking matcher does.
  The result is the pair of capture groups.
\<close>

fun try_lengths :: "string \<Rightarrow> nat \<Rightarrow> (string \<times> char) option" where
  "try_lengths s 0 = None"
| "try_lengths s (Suc k) =
     (case drop (Suc k) s of
        c # _ \<Rightarrow> if is_unit_char c then Some (take (Suc k) s, c) else try_lengths s k
      | [] \<Rightarrow> try_lengths s k)"

definition match_here :: "string \<Rightarrow> (string \<times> char) option" where
  "match_here s = try_lengths s (length (takeWhile is_digit s))"

fun regex_match :: "string \<Rightarrow> (string \<times> char) option" where
  \<comment> \<open>\<^verbatim>\<open>timeStr.match(/(\d+)([smh])/)\<close>: \<open>None\<close> is \<^verbatim>\<open>null\<close>\<close>
  "regex_match [] = None"
| "regex_match (c # cs) =
     (case match_here (c # cs) of
        Some m \<Rightarrow> Some m
      | None \<Rightarrow> regex_match cs)"

text \<open>
  Numbers. Every value that the parser computes is a double that is a nonnegative
  integer, or \<open>+Infinity\<close>: it is modelled as an extended natural number, \<open>\<infinity>\<close> being
  \<open>+Infinity\<close>. A double has 53 significant bits. \<open>to_double n\<close> is the double nearest to
  the natural number \<open>n\<close>, halfway cases going to the even significand, and \<open>+Infinity\<close>
  from \<open>2^1024\<close> on: the result of every arithmetic operation whose exact result is \<open>n\<close>.
  \<^verbatim>\<open>parseInt\<close> on a digit run returns the double nearest to its decimal value, and a
  product is the double nearest to the exact product of its two operands, so that
  \<^verbatim>\<open>value * 60 * 1000\<close> rounds twice.
\<close>

definition digit_val :: "char \<Rightarrow> nat" where
  "digit_val c = of_char c - 48"

definition decimal :: "string \<Rightarrow> nat" where
  \<comment> \<open>the number that a run of decimal digits denotes\<close>
  "decimal ds = foldl (\<lambda>n c. 10 * n + digit_val c) 0 ds"

fun bit_length :: "nat \<Rightarrow> nat" where
  "bit_length n = (if n = 0 then 0 else Suc (bit_length (n div 2)))"

declare bit_length.simps [simp del]

definition to_double :: "nat \<Rightarrow> enat" where
  "to_double n =
     (if n < 2 ^ 53 then enat n
      else
        let e = bit_length n - 53;
            q = n div 2 ^ e;
            r = n mod 2 ^ e;
            m = (if 2 ^ e < 2 * r \<or> (2 * r = 2 ^ e \<and> odd q) then q + 1 else q)
        in if m * 2 ^ e < 2 ^ 1024 then enat (m * 2 ^ e) else \<infinity>)"

definition parseInt :: "string \<Rightarrow> enat" where
  \<comment> \<open>\<^verbatim>\<open>parseInt\<close> on a run of decimal digits (the only argument it gets here)\<close>
  "parseInt ds = to_double (decimal ds)"

definition js_times :: "enat \<Rightarrow> nat \<Rightarrow> enat" where
  \<comment> \<open>the operator \<^verbatim>\<open>*\<close>, a value of the parser times a positive integer constant\<close>
  "js_times x k = (case x of enat n \<Rightarrow> to_double (n * k) | \<infinity> \<Rightarrow> \<infinity>)"

definition parseTimeToMs :: "string \<Rightarrow> enat" where
  "parseTimeToMs timeStr =
     (case regex_match timeStr of
        None \<Rightarrow> 0
      | Some (digits, unit) \<Rightarrow>
          (let value = parseInt digits in
           if unit = CHR ''s'' then js_times value 1000
           else if unit = CHR ''m'' then js_times (js_times value 60) 1000
           else if unit = CHR ''h'' then js_times (js_times (js_times value 60) 60) 1000
           else 0))"

text \<open>
  Two executable predicates on strings, used to state what the parser accepts.
  \<open>has_duration s\<close>: somewhere in \<open>s\<close> a digit is immediately followed by one of the
  unit letters (exactly when the unanchored pattern matches).
  \<open>duration_form s\<close>: the whole of \<open>s\<close> is a non-empty run of digits followed by one unit
  letter, the form \<^verbatim>\<open><digits><unit>\<close> of the specification.
\<close>

fun has_duration :: "string \<Rightarrow> bool" where
  "has_duration (a # b # cs) = ((is_digit a \<and> is_unit_char b) \<or> has_duration (b # cs))"
| "has_duration _ = False"

definition duration_form :: "string \<Rightarrow> bool" where
  "duration_form s =
     (s \<noteq> [] \<and> butlast s \<noteq> [] \<and> list_all is_digit (butlast s) \<and> is_unit_char (last s))"

definition ms_per_unit :: "char \<Rightarrow> nat" where
  \<comment> \<open>the factors of the specification: seconds, minutes, hours\<close>
  "ms_per_unit u =
     (if u = CHR ''s'' then 1000 else if u = CHR ''m'' then 60000
      else if u = CHR ''h'' then 3600000 else 0)"

section \<open>JavaScript numbers\<close>

text \<open>
  The fields of \<^verbatim>\<open>RateLimitInfo\<close> and the threshold are values of the type \<^verbatim>\<open>number\<close>.
  The advisor divides two of them and compares the quotient, and division by zero is
  where the special values come from, so they are part of the model: the two infinities,
  NaN and the negative zero. Finite counts, thresholds and quotients are modelled exactly
  (as reals): the rounding of a quotient is not modelled, that of the parser's values is
  (above). \<open>Fin 0\<close> is the positive
  zero.
\<close>

datatype number = Fin real | NegZero | PosInf | NegInf | NaN

fun fin_val :: "number \<Rightarrow> real" where
  "fin_val (Fin x) = x"
| "fin_val _ = 0"

fun is_inf :: "number \<Rightarrow> bool" where
  "is_inf PosInf = True"
| "is_inf NegInf = True"
| "is_inf _ = False"

fun is_zero :: "number \<Rightarrow> bool" where
  "is_zero (Fin x) = (x = 0)"
| "is_zero NegZero = True"
| "is_zero _ = False"

fun negative :: "number \<Rightarrow> bool" where
  \<comment> \<open>the sign bit\<close>
  "negative (Fin x) = (x < 0)"
| "negative NegZero = True"
| "negative NegInf = True"
| "negative _ = False"

definition signed_inf :: "bool \<Rightarrow> number" where
  "signed_inf neg = (if neg then NegInf else PosInf)"

definition signed_zero :: "bool \<Rightarrow> number" where
  "signed_zero neg = (if neg then NegZero else Fin 0)"

definition js_div :: "number \<Rightarrow> number \<Rightarrow> number" where
  \<comment> \<open>the operator \<^verbatim>\<open>/\<close> on numbers\<close>
  "js_div a b =
     (if a = NaN \<or> b = NaN then NaN
      else if is_inf a then (if is_inf b then NaN else signed_inf (negative a \<noteq> negative b))
      else if is_inf b then signed_zero (negative a \<noteq> negative b)
      else if is_zero b then (if is_zero a then NaN else signed_inf (negative a \<noteq> negative b))
      else if is_zero a then signed_zero (negative a \<noteq> negative b)
      else Fin (fin_val a / fin_val b))"

definition js_lt :: "number \<Rightarrow> number \<Rightarrow> bool" where
  \<comment> \<open>the operator \<^verbatim>\<open><\<close> on numbers: false whenever NaN is involved; the zeros are equal\<close>
  "js_lt a b =
     (if a = NaN \<or> b = NaN then False
      else if a = PosInf \<or> b = NegInf then False
      else if a = NegInf \<or> b = PosInf then True
      else fin_val a < fin_val b)"

section \<open>The rate-limit advisor: \<open>shouldWaitForRateLimit\<close>\<close>

text \<open>
  The advisor exists in the variant of the program with rate limiting only:
  \<^verbatim>\<open>
  interface RateLimitInfo {
    limitRequests?: number;      limitTokens?: number;
    remainingRequests?: number;  remainingTokens?: number;
    resetRequests?: string;      resetTokens?: string;
  }
  function shouldWaitForRateLimit(rateLimitInfo: RateLimitInfo, threshold: number = 0.1): number {
    let waitTime = 0;
    if (rateLimitInfo.remainingRequests !== undefined && rateLimitInfo.limitRequests !== undefined) {
      const requestsRatio = rateLimitInfo.remainingRequests / rateLimitInfo.limitRequests;
      if (requestsRatio < threshold && rateLimitInfo.resetRequests) {
        waitTime = Math.max(waitTime, parseTimeToMs(rateLimitInfo.resetRequests));
      }
    }
    if (rateLimitInfo.remainingTokens !== undefined && rateLimitInfo.limitTokens !== undefined) {
      const tokensRatio = rateLimitInfo.remainingTokens / rateLimitInfo.limitTokens;
      if (tokensRatio < threshold && rateLimitInfo.resetTokens) {
        waitTime = Math.max(waitTime, parseTimeToMs(rateLimitInfo.resetTokens));
      }
    }
    return waitTime;
  }
  \<close>
  An optional field is an \<open>option\<close>: \<open>None\<close> is \<^verbatim>\<open>undefined\<close>. A string is truthy
  when it is not empty. The record is extensible: an object may carry further properties
  (the \<open>more\<close> part of the record scheme).
\<close>

record RateLimitInfo =
  limitRequests :: "number option"
  limitTokens :: "number option"
  remainingRequests :: "number option"
  remainingTokens :: "number option"
  resetRequests :: "string option"
  resetTokens :: "string option"

definition truthy :: "string option \<Rightarrow> bool" where
  "truthy v = (case v of None \<Rightarrow> False | Some s \<Rightarrow> s \<noteq> [])"

definition string_of :: "string option \<Rightarrow> string" where
  \<comment> \<open>the string behind a value known to be truthy\<close>
  "string_of v = (case v of None \<Rightarrow> [] | Some s \<Rightarrow> s)"

definition default_threshold :: number where
  "default_threshold = Fin (1 / 10)"

definition shouldWaitForRateLimit :: "'a RateLimitInfo_scheme \<Rightarrow> number \<Rightarrow> enat" where
  "shouldWaitForRateLimit rateLimitInfo threshold =
     (let waitTime = 0;
          waitTime =
            (case (remainingRequests rateLimitInfo, limitRequests rateLimitInfo) of
               (Some remaining, Some limit) \<Rightarrow>
                 (let requestsRatio = js_div remaining limit in
                  if js_lt requestsRatio threshold \<and> truthy (resetRequests rateLimitInfo)
                  then max waitTime (parseTimeToMs (string_of (resetRequests rateLimitInfo)))
                  else waitTime)
             | _ \<Rightarrow> waitTime);
          waitTime =
            (case (remainingTokens rateLimitInfo, limitTokens rateLimitInfo) of
               (Some remaining, Some limit) \<Rightarrow>
                 (let tokensRatio = js_div remaining limit in
                  if js_lt tokensRatio threshold \<and> truthy (resetTokens rateLimitInfo)
                  then max waitTime (parseTimeToMs (string_of (resetTokens rateLimitInfo)))
                  else waitTime)
             | _ \<Rightarrow> waitTime)
      in waitTime)"

text \<open>
  The advisor as the specification words it: a dimension is a candidate when both its
  counts are present, the ratio is strictly below the threshold and the reset string is
  present; the advice is the largest candidate wait, or 0 when there is none.
\<close>

definition candidate_wait :: "number option \<Rightarrow> number option \<Rightarrow> string option \<Rightarrow> number \<Rightarrow> enat option" where
  "candidate_wait remaining limit reset threshold =
     (case (remaining, limit, reset) of
        (Some r, Some l, Some s) \<Rightarrow>
          if js_lt (js_div r l) threshold then Some (parseTimeToMs s) else None
      | _ \<Rightarrow> None)"



definition or_zero :: "enat option \<Rightarrow> enat" where
  "or_zero c = (case c of None \<Rightarrow> 0 | Some w \<Rightarrow> w)"

section \<open>The result analyzer: \<open>analyzeResult\<close>\<close>

text \<open>
  \<^verbatim>\<open>
  enum ModerationCategory { SEXUAL = "sexual", SEXUAL_MINORS = "sexual/minors", ... }
  interface ModerationResult {
    flagged: boolean;
    categories: ModerationCategories;
    category_scores: ModerationCategoryScores;
    category_applied_input_types: ModerationCategoryAppliedInputTypes;
  }
  \<close>
  The three inner interfaces have one property for each member of the enumeration.
  An object of such a type is modelled as the list of its properties in the order in
  which the object enumerates them, which is the order \<^verbatim>\<open>Object.entries\<close> follows: the
  interface fixes the keys, not their order. Scores are finite numbers (reals).
\<close>

datatype ModerationCategory =
    SEXUAL | SEXUAL_MINORS | HARASSMENT | HARASSMENT_THREATENING | HATE | HATE_THREATENING
  | ILLICIT | ILLICIT_VIOLENT | SELF_HARM | SELF_HARM_INTENT | SELF_HARM_INSTRUCTIONS
  | VIOLENCE | VIOLENCE_GRAPHIC

fun category_name :: "ModerationCategory \<Rightarrow> string" where
  "category_name SEXUAL = ''sexual''"
| "category_name SEXUAL_MINORS = ''sexual/minors''"
| "category_name HARASSMENT = ''harassment''"
| "category_name HARASSMENT_THREATENING = ''harassment/threatening''"
| "category_name HATE = ''hate''"
| "category_name HATE_THREATENING = ''hate/threatening''"
| "category_name ILLICIT = ''illicit''"
| "category_name ILLICIT_VIOLENT = ''illicit/violent''"
| "category_name SELF_HARM = ''self-harm''"
| "category_name SELF_HARM_INTENT = ''self-harm/intent''"
| "category_name SELF_HARM_INSTRUCTIONS = ''self-harm/instructions''"
| "category_name VIOLENCE = ''violence''"
| "category_name VIOLENCE_GRAPHIC = ''violence/graphic''"

definition all_categories :: "ModerationCategory list" where
  \<comment> \<open>the members of the enumeration in the order of its declaration\<close>
  "all_categories =
     [SEXUAL, SEXUAL_MINORS, HARASSMENT, HARASSMENT_THREATENING, HATE, HATE_THREATENING,
      ILLICIT, ILLICIT_VIOLENT, SELF_HARM, SELF_HARM_INTENT, SELF_HARM_INSTRUCTIONS,
      VIOLENCE, VIOLENCE_GRAPHIC]"

type_synonym 'v category_object = "(ModerationCategory \<times> 'v) list"

record ModerationResult =
  flagged :: bool
  categories :: "bool category_object"
  category_scores :: "real category_object"
  category_applied_input_types :: "string list category_object"

definition well_formed_object :: "'v category_object \<Rightarrow> bool" where
  \<comment> \<open>every category is a key, once\<close>
  "well_formed_object ps = (distinct (map fst ps) \<and> set (map fst ps) = set all_categories)"

text \<open>
  \<^verbatim>\<open>
  analyzeResult(result: ModerationResult, inputText: string) {
    this.log(...); this.log(`Flagged: ...`);
    if (result.flagged) {
      const flaggedCategories = Object.entries(result.categories)
        .filter(([_, flagged]) => flagged)
        .map(([category, _]) => category);
      this.log(`Flagged Categories: ${flaggedCategories.join(", ")}`);
      const highScores = Object.entries(result.category_scores)
        .filter(([_, score]) => score > 0.1)
        .sort(([_, a], [__, b]) => b - a)
        .slice(0, 3);
      if (highScores.length > 0) { ... log each ... }
    }
    console.log("");
  }
  \<close>
  The method returns nothing; what it computes are the two constants of the guarded
  block, which it logs. The model returns them, and \<open>None\<close> when the block is skipped.
  \<^verbatim>\<open>Array.prototype.sort\<close> is a stable sort by the comparison function: an insertion
  sort that puts an element before the first one it does not come after.
\<close>

record analysis =
  flaggedCategories :: "ModerationCategory list"
  highScores :: "(ModerationCategory \<times> real) list"

definition compare_scores :: "ModerationCategory \<times> real \<Rightarrow> ModerationCategory \<times> real \<Rightarrow> real" where
  \<comment> \<open>\<^verbatim>\<open>([_, a], [__, b]) => b - a\<close>\<close>
  "compare_scores x y = (case (x, y) of ((_, a), (_, b)) \<Rightarrow> b - a)"

fun insert_by :: "('a \<Rightarrow> 'a \<Rightarrow> real) \<Rightarrow> 'a \<Rightarrow> 'a list \<Rightarrow> 'a list" where
  "insert_by cmp x [] = [x]"
| "insert_by cmp x (y # ys) = (if cmp x y \<le> 0 then x # y # ys else y # insert_by cmp x ys)"

definition array_sort :: "('a \<Rightarrow> 'a \<Rightarrow> real) \<Rightarrow> 'a list \<Rightarrow> 'a list" where
  "array_sort cmp xs = foldr (insert_by cmp) xs []"

definition is_flagged :: "ModerationCategory \<times> bool \<Rightarrow> bool" where
  \<comment> \<open>\<^verbatim>\<open>([_, flagged]) => flagged\<close>\<close>
  "is_flagged = (\<lambda>(_, flagged). flagged)"

definition category_of :: "ModerationCategory \<times> bool \<Rightarrow> ModerationCategory" where
  \<comment> \<open>\<^verbatim>\<open>([category, _]) => category\<close>\<close>
  "category_of = (\<lambda>(category, _). category)"

definition high_score :: "ModerationCategory \<times> real \<Rightarrow> bool" where
  \<comment> \<open>\<^verbatim>\<open>([_, score]) => score > 0.1\<close>\<close>
  "high_score = (\<lambda>(_, score). score > 1 / 10)"

definition analyzeResult :: "ModerationResult \<Rightarrow> analysis option" where
  "analyzeResult result =
     (if flagged result then
        Some \<lparr>flaggedCategories =
                 map category_of (filter is_flagged (categories result)),
              highScores =
                 take 3 (array_sort compare_scores (filter high_score (category_scores result)))\<rparr>
      else None)"

text \<open>
  The analysis as the specification words it, for every result: the flagged categories
  in the order of the enumeration, and the entries with a score above 0.1, taken in the
  order of the enumeration, sorted by descending score (stably) and cut to three.
\<close>

definition flaggedCategories_spec :: "ModerationResult \<Rightarrow> ModerationCategory list" where
  "flaggedCategories_spec r = filter (\<lambda>c. map_of (categories r) c = Some True) all_categories"

definition entries_in_enum_order :: "'v category_object \<Rightarrow> (ModerationCategory \<times> 'v) list" where
  \<comment> \<open>the entries of a mapping, the categories taken in the order of the enumeration\<close>
  "entries_in_enum_order ps =
     List.map_filter (\<lambda>c. map_option (Pair c) (map_of ps c)) all_categories"

definition topScores_spec :: "ModerationResult \<Rightarrow> (ModerationCategory \<times> real) list" where
  "topScores_spec r =
     take 3 (sort_key (\<lambda>e. - snd e)
       (filter (\<lambda>e. snd e > 1 / 10) (entries_in_enum_order (category_scores r))))"

definition uniform_object :: "'v \<Rightarrow> 'v category_object" where
  \<comment> \<open>the object with the same value for every category, in the order of the enumeration\<close>
  "uniform_object v = map (\<lambda>c. (c, v)) all_categories"

text \<open>Three concrete results, used to evaluate the analyzer.\<close>

definition example_result :: ModerationResult where
  \<comment> \<open>flagged, with five scores above 0.1 and a tie\<close>
  "example_result =
     \<lparr>flagged = True,
      categories = map (\<lambda>c. (c, c = HARASSMENT)) all_categories,
      category_scores =
        map (\<lambda>c. (c, if c = HARASSMENT then 9 / 10
                      else if c = SEXUAL_MINORS \<or> c = HARASSMENT_THREATENING then 3 / 10
                      else if c = HATE \<or> c = VIOLENCE then 1 / 5 else 1 / 100)) all_categories,
      category_applied_input_types = uniform_object [''text'']\<rparr>"

definition unflagged_result :: ModerationResult where
  \<comment> \<open>not flagged, with one category set and one score above 0.1\<close>
  "unflagged_result =
     \<lparr>flagged = False,
      categories = map (\<lambda>c. (c, c = VIOLENCE)) all_categories,
      category_scores = map (\<lambda>c. (c, if c = VIOLENCE then 1 / 5 else 1 / 100)) all_categories,
      category_applied_input_types = uniform_object [''text'']\<rparr>"

definition reordered_result :: ModerationResult where
  \<comment> \<open>flagged, the properties of each object in another order than the enumeration\<close>
  "reordered_result =
     \<lparr>flagged = True,
      categories =
        map (\<lambda>c. (c, c = HARASSMENT \<or> c = SEXUAL))
          [HARASSMENT, HARASSMENT_THREATENING, SEXUAL, HATE, HATE_THREATENING, ILLICIT,
           ILLICIT_VIOLENT, SELF_HARM_INTENT, SELF_HARM_INSTRUCTIONS, SELF_HARM, SEXUAL_MINORS,
           VIOLENCE, VIOLENCE_GRAPHIC],
      category_scores =
        map (\<lambda>c. (c, if c = HARASSMENT \<or> c = SEXUAL then 4 / 5 else 1 / 100))
          [HARASSMENT, HARASSMENT_THREATENING, SEXUAL, HATE, HATE_THREATENING, ILLICIT,
           ILLICIT_VIOLENT, SELF_HARM_INTENT, SELF_HARM_INSTRUCTIONS, SELF_HARM, SEXUAL_MINORS,
           VIOLENCE, VIOLENCE_GRAPHIC],
      category_applied_input_types = uniform_object [''text'']\<rparr>"

section \<open>The analyzer and the advisor on a store\<close>

text \<open>
  JavaScript passes objects and arrays by reference, and \<^verbatim>\<open>sort\<close> sorts its array in
  place. To state what a call leaves unchanged, the same two functions are modelled on an
  explicit store: a list of cells, an address being an index. \<^verbatim>\<open>Object.entries\<close>,
  \<^verbatim>\<open>filter\<close>, \<^verbatim>\<open>map\<close> and \<^verbatim>\<open>slice\<close> allocate a new array; \<^verbatim>\<open>sort\<close> overwrites the array it
  is called on and returns it. A computation returns a value and the new store, or an
  error: a reference to no cell, or a value of a type that the TypeScript interface
  excludes (where JavaScript would convert the value or throw a \<^verbatim>\<open>TypeError\<close>).
\<close>

type_synonym addr = nat

datatype error = DanglingReference | WrongType

datatype jsval = Undefined | BoolV bool | NumV number | StrV string | Ref addr

datatype cell =
    ResultObject bool addr addr addr
      \<comment> \<open>\<^verbatim>\<open>flagged\<close> and the references \<^verbatim>\<open>categories\<close>, \<^verbatim>\<open>category_scores\<close>, \<^verbatim>\<open>category_applied_input_types\<close>\<close>
  | CategoriesObject "bool category_object"
  | ScoresObject "real category_object"
  | InputTypesObject "string list category_object"
  | BoolEntries "(ModerationCategory \<times> bool) list"
  | ScoreEntries "(ModerationCategory \<times> real) list"
  | CategoryArray "ModerationCategory list"
  | InfoObject "(string \<times> jsval) list"
      \<comment> \<open>a \<^verbatim>\<open>RateLimitInfo\<close> object: any properties, by name\<close>

type_synonym store = "cell list"

type_synonym 'a prog = "store \<Rightarrow> error + ('a \<times> store)"

definition pure_prog :: "'a \<Rightarrow> 'a prog" where
  "pure_prog x = (\<lambda>h. Inr (x, h))"

definition fail_prog :: "error \<Rightarrow> 'a prog" where
  "fail_prog e = (\<lambda>h. Inl e)"

definition bind_prog :: "'a prog \<Rightarrow> ('a \<Rightarrow> 'b prog) \<Rightarrow> 'b prog" where
  "bind_prog m f = (\<lambda>h. case m h of Inl e \<Rightarrow> Inl e | Inr (x, h') \<Rightarrow> f x h')"

definition read_cell :: "addr \<Rightarrow> cell prog" where
  "read_cell a = (\<lambda>h. if a < length h then Inr (h ! a, h) else Inl DanglingReference)"

definition alloc_cell :: "cell \<Rightarrow> addr prog" where
  "alloc_cell c = (\<lambda>h. Inr (length h, h @ [c]))"

definition write_cell :: "addr \<Rightarrow> cell \<Rightarrow> unit prog" where
  "write_cell a c = (\<lambda>h. if a < length h then Inr ((), h[a := c]) else Inl DanglingReference)"

definition entries_of_categories :: "addr \<Rightarrow> addr prog" where
  \<comment> \<open>\<^verbatim>\<open>Object.entries(result.categories)\<close>\<close>
  "entries_of_categories a =
     bind_prog (read_cell a) (\<lambda>c. case c of CategoriesObject ps \<Rightarrow> alloc_cell (BoolEntries ps) | _ \<Rightarrow> fail_prog WrongType)"

definition entries_of_scores :: "addr \<Rightarrow> addr prog" where
  \<comment> \<open>\<^verbatim>\<open>Object.entries(result.category_scores)\<close>\<close>
  "entries_of_scores a =
     bind_prog (read_cell a) (\<lambda>c. case c of ScoresObject ps \<Rightarrow> alloc_cell (ScoreEntries ps) | _ \<Rightarrow> fail_prog WrongType)"

definition filter_bool_entries :: "(ModerationCategory \<times> bool \<Rightarrow> bool) \<Rightarrow> addr \<Rightarrow> addr prog" where
  "filter_bool_entries p a =
     bind_prog (read_cell a) (\<lambda>c. case c of BoolEntries es \<Rightarrow> alloc_cell (BoolEntries (filter p es)) | _ \<Rightarrow> fail_prog WrongType)"

definition map_bool_entries :: "(ModerationCategory \<times> bool \<Rightarrow> ModerationCategory) \<Rightarrow> addr \<Rightarrow> addr prog" where
  "map_bool_entries f a =
     bind_prog (read_cell a) (\<lambda>c. case c of BoolEntries es \<Rightarrow> alloc_cell (CategoryArray (map f es)) | _ \<Rightarrow> fail_prog WrongType)"

definition filter_score_entries :: "(ModerationCategory \<times> real \<Rightarrow> bool) \<Rightarrow> addr \<Rightarrow> addr prog" where
  "filter_score_entries p a =
     bind_prog (read_cell a) (\<lambda>c. case c of ScoreEntries es \<Rightarrow> alloc_cell (ScoreEntries (filter p es)) | _ \<Rightarrow> fail_prog WrongType)"

definition sort_score_entries ::
    "(ModerationCategory \<times> real \<Rightarrow> ModerationCategory \<times> real \<Rightarrow> real) \<Rightarrow> addr \<Rightarrow> addr prog" where
  \<comment> \<open>in place: the cell of the array is overwritten, and the same reference is returned\<close>
  "sort_score_entries cmp a =
     bind_prog (read_cell a) (\<lambda>c. case c of
        ScoreEntries es \<Rightarrow> bind_prog (write_cell a (ScoreEntries (array_sort cmp es))) (\<lambda>_. pure_prog a)
      | _ \<Rightarrow> fail_prog WrongType)"

definition slice_score_entries :: "nat \<Rightarrow> addr \<Rightarrow> addr prog" where
  \<comment> \<open>\<^verbatim>\<open>slice(0, n)\<close>\<close>
  "slice_score_entries n a =
     bind_prog (read_cell a) (\<lambda>c. case c of ScoreEntries es \<Rightarrow> alloc_cell (ScoreEntries (take n es)) | _ \<Rightarrow> fail_prog WrongType)"

definition analyzeResult_store :: "addr \<Rightarrow> (addr \<times> addr) option prog" where
  \<comment> \<open>the references of \<^verbatim>\<open>flaggedCategories\<close> and \<^verbatim>\<open>highScores\<close>, when they are computed\<close>
  "analyzeResult_store result =
     bind_prog (read_cell result) (\<lambda>c. case c of
        ResultObject flag cats scores _ \<Rightarrow>
          if flag then
            bind_prog (entries_of_categories cats) (\<lambda>entries.
            bind_prog (filter_bool_entries is_flagged entries) (\<lambda>filtered.
            bind_prog (map_bool_entries category_of filtered) (\<lambda>flaggedCategories.
            bind_prog (entries_of_scores scores) (\<lambda>entries.
            bind_prog (filter_score_entries high_score entries) (\<lambda>filtered.
            bind_prog (sort_score_entries compare_scores filtered) (\<lambda>sorted.
            bind_prog (slice_score_entries 3 sorted) (\<lambda>highScores.
            pure_prog (Some (flaggedCategories, highScores)))))))))
          else pure_prog None
      | _ \<Rightarrow> fail_prog WrongType)"

text \<open>Reading a store: the result behind a reference, and the analysis behind an outcome.\<close>

definition well_typed_result :: "store \<Rightarrow> addr \<Rightarrow> bool" where
  "well_typed_result h a =
     (a < length h \<and>
      (case h ! a of
         ResultObject _ c s t \<Rightarrow>
           c < length h \<and> s < length h \<and> t < length h \<and>
           (case h ! c of CategoriesObject _ \<Rightarrow> True | _ \<Rightarrow> False) \<and>
           (case h ! s of ScoresObject _ \<Rightarrow> True | _ \<Rightarrow> False) \<and>
           (case h ! t of InputTypesObject _ \<Rightarrow> True | _ \<Rightarrow> False)
       | _ \<Rightarrow> False))"

definition load_result :: "store \<Rightarrow> addr \<Rightarrow> ModerationResult" where
  "load_result h a =
     (case h ! a of
        ResultObject f c s t \<Rightarrow>
          \<lparr>flagged = f,
           categories = (case h ! c of CategoriesObject ps \<Rightarrow> ps | _ \<Rightarrow> []),
           category_scores = (case h ! s of ScoresObject ps \<Rightarrow> ps | _ \<Rightarrow> []),
           category_applied_input_types = (case h ! t of InputTypesObject ps \<Rightarrow> ps | _ \<Rightarrow> [])\<rparr>
      | _ \<Rightarrow> \<lparr>flagged = False, categories = [], category_scores = [],
              category_applied_input_types = []\<rparr>)"

definition view_analysis :: "store \<Rightarrow> (addr \<times> addr) option \<Rightarrow> analysis option" where
  "view_analysis h out =
     (case out of
        None \<Rightarrow> None
      | Some (fa, ha) \<Rightarrow>
          Some \<lparr>flaggedCategories = (case h ! fa of CategoryArray cs \<Rightarrow> cs | _ \<Rightarrow> []),
                highScores = (case h ! ha of ScoreEntries es \<Rightarrow> es | _ \<Rightarrow> [])\<rparr>)"


text \<open>
  The advisor on the store. Its argument is a reference to an object with any
  properties; a property that is missing reads as \<^verbatim>\<open>undefined\<close>. The TypeScript types ask
  for a number behind the four counts and for a string behind the two reset durations;
  with a reset value that is truthy and not a string, \<^verbatim>\<open>timeStr.match\<close> is not a function
  and the call throws.
\<close>

definition get_prop :: "addr \<Rightarrow> string \<Rightarrow> jsval prog" where
  "get_prop a k =
     bind_prog (read_cell a) (\<lambda>c. case c of
        InfoObject ps \<Rightarrow> pure_prog (case map_of ps k of None \<Rightarrow> Undefined | Some v \<Rightarrow> v)
      | _ \<Rightarrow> fail_prog WrongType)"

definition as_number :: "jsval \<Rightarrow> number prog" where
  "as_number v = (case v of NumV n \<Rightarrow> pure_prog n | _ \<Rightarrow> fail_prog WrongType)"

definition js_truthy :: "jsval \<Rightarrow> bool" where
  "js_truthy v =
     (case v of
        Undefined \<Rightarrow> False
      | BoolV b \<Rightarrow> b
      | NumV n \<Rightarrow> \<not> is_zero n \<and> n \<noteq> NaN
      | StrV s \<Rightarrow> s \<noteq> []
      | Ref _ \<Rightarrow> True)"

definition parseTimeToMs_js :: "jsval \<Rightarrow> enat prog" where
  \<comment> \<open>\<open>parseTimeToMs\<close> called with any value: only a string has the method \<^verbatim>\<open>match\<close>\<close>
  "parseTimeToMs_js v = (case v of StrV s \<Rightarrow> pure_prog (parseTimeToMs s) | _ \<Rightarrow> fail_prog WrongType)"

definition dimension_store :: "addr \<Rightarrow> string \<Rightarrow> string \<Rightarrow> string \<Rightarrow> number \<Rightarrow> enat \<Rightarrow> enat prog" where
  \<comment> \<open>one of the two \<^verbatim>\<open>if\<close> blocks, for the property names of its dimension\<close>
  "dimension_store info remaining_key limit_key reset_key threshold waitTime =
     bind_prog (get_prop info remaining_key) (\<lambda>remaining.
     bind_prog (get_prop info limit_key) (\<lambda>limit.
       if remaining \<noteq> Undefined \<and> limit \<noteq> Undefined then
         bind_prog (as_number remaining) (\<lambda>r.
         bind_prog (as_number limit) (\<lambda>l.
         bind_prog (get_prop info reset_key) (\<lambda>reset.
           if js_lt (js_div r l) threshold \<and> js_truthy reset
           then bind_prog (parseTimeToMs_js reset) (\<lambda>w. pure_prog (max waitTime w))
           else pure_prog waitTime)))
       else pure_prog waitTime))"

definition shouldWaitForRateLimit_store :: "addr \<Rightarrow> number \<Rightarrow> enat prog" where
  "shouldWaitForRateLimit_store rateLimitInfo threshold =
     bind_prog (pure_prog 0) (\<lambda>waitTime.
     bind_prog (dimension_store rateLimitInfo ''remainingRequests'' ''limitRequests'' ''resetRequests''
                  threshold waitTime) (\<lambda>waitTime.
     bind_prog (dimension_store rateLimitInfo ''remainingTokens'' ''limitTokens'' ''resetTokens''
                  threshold waitTime) (\<lambda>waitTime.
     pure_prog waitTime)))"

definition rate_limit_fields :: "string list" where
  "rate_limit_fields =
     [''limitRequests'', ''limitTokens'', ''remainingRequests'', ''remainingTokens'',
      ''resetRequests'', ''resetTokens'']"

definition number_field :: "(string \<times> jsval) list \<Rightarrow> string \<Rightarrow> number option" where
  "number_field ps k = (case map_of ps k of Some (NumV n) \<Rightarrow> Some n | _ \<Rightarrow> None)"

definition string_field :: "(string \<times> jsval) list \<Rightarrow> string \<Rightarrow> string option" where
  "string_field ps k = (case map_of ps k of Some (StrV s) \<Rightarrow> Some s | _ \<Rightarrow> None)"

definition load_info :: "(string \<times> jsval) list \<Rightarrow> RateLimitInfo" where
  "load_info ps =
     \<lparr>limitRequests = number_field ps ''limitRequests'',
      limitTokens = number_field ps ''limitTokens'',
      remainingRequests = number_field ps ''remainingRequests'',
      remainingTokens = number_field ps ''remainingTokens'',
      resetRequests = string_field ps ''resetRequests'',
      resetTokens = string_field ps ''resetTokens''\<rparr>"

definition optional_number :: "(string \<times> jsval) list \<Rightarrow> string \<Rightarrow> bool" where
  "optional_number ps k =
     (case map_of ps k of None \<Rightarrow> True | Some Undefined \<Rightarrow> True | Some (NumV _) \<Rightarrow> True | _ \<Rightarrow> False)"

definition optional_string :: "(string \<times> jsval) list \<Rightarrow> string \<Rightarrow> bool" where
  "optional_string ps k =
     (case map_of ps k of None \<Rightarrow> True | Some Undefined \<Rightarrow> True | Some (StrV _) \<Rightarrow> True | _ \<Rightarrow> False)"

definition well_typed_info :: "(string \<times> jsval) list \<Rightarrow> bool" where
  "well_typed_info ps =
     (optional_number ps ''limitRequests'' \<and> optional_number ps ''limitTokens'' \<and>
      optional_number ps ''remainingRequests'' \<and> optional_number ps ''remainingTokens'' \<and>
      optional_string ps ''resetRequests'' \<and> optional_string ps ''resetTokens'')"

definition same_fields :: "(string \<times> jsval) list \<Rightarrow> (string \<times> jsval) list \<Rightarrow> bool" where
  \<comment> \<open>two objects with the same six documented properties\<close>
  "same_fields ps ps' = list_all (\<lambda>k. map_of ps k = map_of ps' k) rate_limit_fields"

definition example_store :: store where
  "example_store =
     [CategoriesObject (categories example_result),
      ScoresObject (category_scores example_result),
      InputTypesObject (category_applied_input_types example_result),
      ResultObject True 0 1 2,
      InfoObject [(''limitRequests'', NumV (Fin 100)), (''remainingRequests'', NumV (Fin 5)),
                  (''resetRequests'', StrV ''30s''), (''retryAfter'', NumV (Fin 7))]]"


section \<open>Properties of the duration parser\<close>

lemma unit_not_digit: "is_unit_char c \<Longrightarrow> \<not> is_digit c"
  by (auto simp: is_unit_char_def is_digit_def)

lemma try_lengths_digits:
  "k < length (takeWhile is_digit s) \<Longrightarrow> try_lengths s k = None"
proof (induction k)
  case 0
  show ?case by simp
next
  case (Suc k)
  let ?n = "length (takeWhile is_digit s)"
  from Suc.prems have lt: "Suc k < length s"
    using length_takeWhile_le [of is_digit s] by simp
  have "takeWhile is_digit s ! Suc k \<in> set (takeWhile is_digit s)"
    using Suc.prems by (rule nth_mem)
  then have "is_digit (takeWhile is_digit s ! Suc k)"
    by (rule set_takeWhileD [THEN conjunct2])
  then have dig: "is_digit (s ! Suc k)"
    using Suc.prems by (simp add: takeWhile_nth)
  have "drop (Suc k) s = s ! Suc k # drop (Suc (Suc k)) s"
    using lt by (simp add: Cons_nth_drop_Suc)
  moreover have "try_lengths s k = None"
    using Suc by simp
  ultimately show ?case
    using dig unit_not_digit by auto
qed

lemma match_here_eq:
  "match_here s =
     (if takeWhile is_digit s = [] then None
      else case dropWhile is_digit s of
        [] \<Rightarrow> None
      | u # rest \<Rightarrow> if is_unit_char u then Some (takeWhile is_digit s, u) else None)"
proof (cases "takeWhile is_digit s = []")
  case True
  then show ?thesis by (simp add: match_here_def)
next
  case False
  then obtain k where k: "length (takeWhile is_digit s) = Suc k"
    by (cases "takeWhile is_digit s") auto
  have none: "try_lengths s k = None"
    using k by (intro try_lengths_digits) simp
  have dr: "drop (Suc k) s = dropWhile is_digit s"
    using k by (metis dropWhile_eq_drop)
  have tk: "take (Suc k) s = takeWhile is_digit s"
    using k by (metis takeWhile_eq_take)
  have "match_here s =
          (case dropWhile is_digit s of
             [] \<Rightarrow> None
           | u # rest \<Rightarrow> if is_unit_char u then Some (takeWhile is_digit s, u) else None)"
    unfolding match_here_def k try_lengths.simps dr tk none ..
  then show ?thesis
    using False by simp
qed

lemma has_duration_append:
  "is_digit a \<Longrightarrow> is_unit_char b \<Longrightarrow> has_duration (xs @ a # b # ys)"
proof (induction xs)
  case Nil then show ?case by simp
next
  case (Cons x xs)
  then show ?case by (cases xs) auto
qed

lemma match_here_Some:
  assumes "match_here s = Some (ds, u)"
  shows "\<exists>rest. s = ds @ u # rest \<and> ds \<noteq> [] \<and> list_all is_digit ds \<and> is_unit_char u
           \<and> ds = takeWhile is_digit s"
proof (cases "dropWhile is_digit s")
  case Nil
  from assms show ?thesis unfolding match_here_eq Nil by (simp split: if_splits)
next
  case (Cons v rest)
  from assms have ne: "takeWhile is_digit s \<noteq> []" and u: "is_unit_char v"
    and ds: "takeWhile is_digit s = ds" and v: "v = u"
    unfolding match_here_eq Cons by (simp_all split: if_splits)
  have "takeWhile is_digit s @ dropWhile is_digit s = s"
    by (rule takeWhile_dropWhile_id)
  then have s: "ds @ u # rest = s"
    by (simp only: Cons ds v)
  have "\<forall>x\<in>set (takeWhile is_digit s). is_digit x"
    by (blast dest: set_takeWhileD)
  then have "list_all is_digit ds"
    by (simp only: ds list_all_iff)
  moreover have "s = ds @ u # rest" using s by simp
  moreover have "ds \<noteq> []" using ne ds by simp
  moreover have "is_unit_char u" using u v by simp
  moreover have "ds = takeWhile is_digit s" using ds by simp
  ultimately show ?thesis by blast
qed

lemma regex_match_None_iff: "regex_match s = None \<longleftrightarrow> \<not> has_duration s"
proof (induction s)
  case Nil show ?case by simp
next
  case (Cons c cs)
  show ?case
  proof (cases "has_duration cs")
    case True
    then have "has_duration (c # cs)" by (cases cs) auto
    moreover have "regex_match (c # cs) \<noteq> None"
      using True Cons by (auto split: option.splits)
    ultimately show ?thesis by simp
  next
    case False
    have "match_here (c # cs) \<noteq> None \<longleftrightarrow> (cs \<noteq> [] \<and> is_digit c \<and> is_unit_char (hd cs))"
    proof
      assume "match_here (c # cs) \<noteq> None"
      then obtain ds u where m: "match_here (c # cs) = Some (ds, u)" by auto
      from match_here_Some [OF m] obtain rest where
        s: "c # cs = ds @ u # rest" and ne: "ds \<noteq> []" and dg: "list_all is_digit ds" and u: "is_unit_char u"
        by blast
      from ne obtain d ds' where ds: "ds = d # ds'" by (cases ds) auto
      show "cs \<noteq> [] \<and> is_digit c \<and> is_unit_char (hd cs)"
      proof (cases "ds' = []")
        case True
        then show ?thesis using s ds dg u by auto
      next
        case F: False
        then obtain xs x where xs: "ds' = xs @ [x]" by (cases ds' rule: rev_cases) auto
        have "cs = xs @ x # u # rest" using s ds xs by simp
        moreover have "is_digit x" using dg ds xs by simp
        ultimately have "has_duration cs" using u by (simp add: has_duration_append)
        with False show ?thesis by simp
      qed
    next
      assume a: "cs \<noteq> [] \<and> is_digit c \<and> is_unit_char (hd cs)"
      then obtain b bs where cs: "cs = b # bs" by (cases cs) auto
      with a have "\<not> is_digit b" using unit_not_digit by auto
      with a cs show "match_here (c # cs) \<noteq> None"
        by (simp add: match_here_eq)
    qed
    moreover have "has_duration (c # cs) \<longleftrightarrow> (cs \<noteq> [] \<and> is_digit c \<and> is_unit_char (hd cs))"
      using False by (cases cs) auto
    ultimately show ?thesis using Cons False by (auto split: option.splits)
  qed
qed


lemma regex_match_here: "match_here s = Some m \<Longrightarrow> regex_match s = Some m"
  by (cases s) (simp_all add: match_here_def)

lemma match_here_well_formed:
  assumes "ds \<noteq> []" and "list_all is_digit ds" and "is_unit_char u"
  shows "match_here (ds @ u # rest) = Some (ds, u)"
proof -
  have nd: "\<not> is_digit u" using assms(3) by (rule unit_not_digit)
  have dig: "\<And>x. x \<in> set ds \<Longrightarrow> is_digit x"
    using assms(2) by (simp add: list_all_iff)
  have tw: "takeWhile is_digit (ds @ u # rest) = ds"
    using nd dig by (simp add: takeWhile_append2)
  have dw: "dropWhile is_digit (ds @ u # rest) = u # rest"
    using nd dig by (simp add: dropWhile_append2)
  show ?thesis
    unfolding match_here_eq tw dw using assms(1,3) by simp
qed

lemma regex_match_unit: "regex_match s = Some (ds, u) \<Longrightarrow> is_unit_char u"
proof (induction s)
  case Nil then show ?case by simp
next
  case (Cons c cs)
  show ?case
  proof (cases "match_here (c # cs)")
    case None
    with Cons show ?thesis by simp
  next
    case (Some m)
    with Cons.prems have "match_here (c # cs) = Some (ds, u)" by simp
    from match_here_Some [OF this] show ?thesis by blast
  qed
qed

lemma no_duration_digits: "list_all is_digit ds \<Longrightarrow> \<not> has_duration ds"
proof (induction ds rule: has_duration.induct)
  case (1 a b cs)
  then show ?case using unit_not_digit [of b] by auto
qed simp_all

lemma match_here_digit_unit:
  assumes "is_digit c" and "is_unit_char x"
  shows "match_here (c # x # xs) = Some ([c], x)"
  using match_here_well_formed [of "[c]" x xs] assms by simp

lemma regex_match_Some:
  assumes "regex_match s = Some (ds, u)"
  shows "\<exists>pre post. s = pre @ ds @ u # post \<and> ds \<noteq> [] \<and> list_all is_digit ds \<and> is_unit_char u \<and>
           \<not> has_duration (pre @ ds) \<and> (pre = [] \<or> \<not> is_digit (last pre))"
  using assms
proof (induction s)
  case Nil
  then show ?case by simp
next
  case (Cons c cs)
  show ?case
  proof (cases "match_here (c # cs)")
    case (Some m)
    with Cons.prems have m: "match_here (c # cs) = Some (ds, u)" by simp
    from match_here_Some [OF m] obtain rest where
      s: "c # cs = ds @ u # rest" and ne: "ds \<noteq> []" and dg: "list_all is_digit ds"
      and un: "is_unit_char u"
      by blast
    have "c # cs = [] @ ds @ u # rest" using s by simp
    moreover have "\<not> has_duration ([] @ ds)" using dg by (simp add: no_duration_digits)
    ultimately show ?thesis using ne dg un by blast
  next
    case None
    with Cons.prems have "regex_match cs = Some (ds, u)" by simp
    from Cons.IH [OF this] obtain pre post where
      s: "cs = pre @ ds @ u # post" and ne: "ds \<noteq> []" and dg: "list_all is_digit ds"
      and un: "is_unit_char u" and nd: "\<not> has_duration (pre @ ds)"
      and lp: "pre = [] \<or> \<not> is_digit (last pre)"
      by blast
    obtain x xs where x: "pre @ ds = x # xs" using ne by (cases "pre @ ds") auto
    have cs: "cs = x # xs @ u # post" using s x by (metis append.assoc append_Cons)
    have nx: "\<not> (is_digit c \<and> is_unit_char x)"
    proof
      assume "is_digit c \<and> is_unit_char x"
      then have "match_here (c # cs) = Some ([c], x)"
        unfolding cs by (simp add: match_here_digit_unit)
      with None show False by simp
    qed
    have 1: "\<not> has_duration ((c # pre) @ ds)"
      using nd nx x by simp
    have 2: "\<not> is_digit (last (c # pre))"
    proof (cases "pre = []")
      case True
      have "\<not> is_digit c"
      proof
        assume c: "is_digit c"
        have "match_here ((c # ds) @ u # post) = Some (c # ds, u)"
          using c dg un by (intro match_here_well_formed) simp_all
        then have "match_here (c # cs) = Some (c # ds, u)" using s True by simp
        with None show False by simp
      qed
      with True show ?thesis by simp
    next
      case False
      with lp show ?thesis by simp
    qed
    have "c # cs = (c # pre) @ ds @ u # post" using s by simp
    with ne dg un 1 2 show ?thesis by blast
  qed
qed

subsection \<open>Doubles\<close>

lemma to_double_exact: "n < 2 ^ 53 \<Longrightarrow> to_double n = enat n"
  by (simp add: to_double_def)

lemma bit_length_bounds: "2 ^ k \<le> n \<Longrightarrow> n < 2 ^ Suc k \<Longrightarrow> bit_length n = Suc k"
proof (induction k arbitrary: n)
  case 0
  then have n: "n = 1" by simp
  show ?case unfolding n by (simp add: bit_length.simps [of "Suc 0"] bit_length.simps [of 0])
next
  case (Suc k)
  from Suc.prems have "2 ^ k \<le> n div 2" and "n div 2 < 2 ^ Suc k" by simp_all
  then have "bit_length (n div 2) = Suc k" by (rule Suc.IH)
  moreover from Suc.prems have "n \<noteq> 0" by auto
  ultimately show ?case by (simp add: bit_length.simps [of n])
qed

lemma to_double_round:
  assumes "2 ^ (52 + e) \<le> n" and "n < 2 ^ (53 + e)" and "0 < e"
  shows "to_double n =
           (let q = n div 2 ^ e; r = n mod 2 ^ e;
                m = (if 2 ^ e < 2 * r \<or> (2 * r = 2 ^ e \<and> odd q) then q + 1 else q)
            in if m * 2 ^ e < 2 ^ 1024 then enat (m * 2 ^ e) else \<infinity>)"
proof -
  have "bit_length n = Suc (52 + e)"
    using assms(1,2) by (intro bit_length_bounds) simp_all
  then have b: "bit_length n - 53 = e" by simp
  have "(2::nat) ^ 53 \<le> 2 ^ (52 + e)"
    using assms(3) by (intro power_increasing) simp_all
  with assms(1) have "\<not> n < 2 ^ 53" by simp
  then show ?thesis
    unfolding to_double_def b by (simp add: Let_def)
qed

lemma js_times_exact: "n * k < 2 ^ 53 \<Longrightarrow> js_times (enat n) k = enat (n * k)"
  by (simp add: js_times_def to_double_exact)

lemma digit_val_le: "is_digit c \<Longrightarrow> digit_val c \<le> 9"
  by (auto simp: is_digit_def digit_val_def)

lemma decimal_snoc: "decimal (ds @ [d]) = 10 * decimal ds + digit_val d"
  by (simp add: decimal_def)

lemma decimal_less: "list_all is_digit ds \<Longrightarrow> decimal ds < 10 ^ length ds"
proof (induction ds rule: rev_induct)
  case Nil
  show ?case by (simp add: decimal_def)
next
  case (snoc d ds)
  then have "decimal ds < 10 ^ length ds" and "digit_val d \<le> 9"
    by (simp_all add: digit_val_le)
  then have "10 * decimal ds + digit_val d < 10 * 10 ^ length ds" by simp
  then show ?case by (simp add: decimal_snoc)
qed

lemma ms_per_unit_le: "ms_per_unit u \<le> 3600000"
  by (simp add: ms_per_unit_def)

lemma ms_per_unit_dvd: "1000 dvd ms_per_unit u"
  by (simp add: ms_per_unit_def)

lemma short_run_exact:
  assumes "list_all is_digit ds" and "length ds \<le> 9"
  shows "decimal ds * ms_per_unit u < 2 ^ 53"
proof -
  have "decimal ds < 10 ^ length ds" using assms(1) by (rule decimal_less)
  also have "\<dots> \<le> (10::nat) ^ 9" using assms(2) by (intro power_increasing) simp_all
  finally have "decimal ds < 10 ^ 9" .
  then have "decimal ds * ms_per_unit u \<le> 10 ^ 9 * 3600000"
    using ms_per_unit_le [of u] by (intro mult_mono) simp_all
  also have "\<dots> < (2::nat) ^ 53" by simp
  finally show ?thesis .
qed

subsection \<open>The value of a match\<close>

lemma parseTimeToMs_None: "regex_match s = None \<Longrightarrow> parseTimeToMs s = 0"
  by (simp add: parseTimeToMs_def)

lemma parseTimeToMs_Nil: "parseTimeToMs [] = 0"
  by (simp add: parseTimeToMs_def)

lemma parseTimeToMs_match_exact:
  assumes m: "regex_match s = Some (ds, u)" and u: "is_unit_char u"
    and b: "decimal ds * ms_per_unit u < 2 ^ 53"
  shows "parseTimeToMs s = enat (decimal ds * ms_per_unit u)"
proof -
  let ?n = "decimal ds"
  from u consider "u = CHR ''s''" | "u = CHR ''m''" | "u = CHR ''h''"
    by (auto simp: is_unit_char_def)
  then show ?thesis
  proof cases
    case 1
    with b have b1: "?n * 1000 < 2 ^ 53" by (simp add: ms_per_unit_def)
    then have "?n < 2 ^ 53" by simp
    then show ?thesis
      using m 1 b1 by (simp add: parseTimeToMs_def parseInt_def to_double_exact js_times_exact ms_per_unit_def)
  next
    case 2
    with b have b1: "?n * 60000 < 2 ^ 53" by (simp add: ms_per_unit_def)
    then have "?n < 2 ^ 53" and "?n * 60 < 2 ^ 53" and "?n * 60 * 1000 < 2 ^ 53" by simp_all
    then show ?thesis
      using m 2 by (simp add: parseTimeToMs_def parseInt_def to_double_exact js_times_exact ms_per_unit_def)
  next
    case 3
    with b have b1: "?n * 3600000 < 2 ^ 53" by (simp add: ms_per_unit_def)
    then have "?n < 2 ^ 53" and "?n * 60 < 2 ^ 53" and "?n * 60 * 60 < 2 ^ 53"
      and "?n * 60 * 60 * 1000 < 2 ^ 53" by simp_all
    then show ?thesis
      using m 3 by (simp add: parseTimeToMs_def parseInt_def to_double_exact js_times_exact ms_per_unit_def)
  qed
qed

lemma regex_match_well_formed:
  assumes "ds \<noteq> []" and "list_all is_digit ds" and "is_unit_char u"
  shows "regex_match (ds @ u # rest) = Some (ds, u)"
  using match_here_well_formed [OF assms, of rest] by (rule regex_match_here)


lemma parseTimeToMs_eval:
  assumes "ds \<noteq> []" and "list_all is_digit ds" and "is_unit_char u"
    and "decimal ds * ms_per_unit u < 2 ^ 53"
  shows "parseTimeToMs (ds @ u # rest) = enat (decimal ds * ms_per_unit u)"
  using regex_match_well_formed [OF assms(1-3)] assms(3,4) by (rule parseTimeToMs_match_exact)

lemma parse_30s: "parseTimeToMs ''30s'' = enat 30000"
  using parseTimeToMs_eval [of "''30''" "CHR ''s''" "[]"]
  by (simp add: is_digit_def is_unit_char_def decimal_def digit_val_def ms_per_unit_def)

lemma parse_2m: "parseTimeToMs ''2m'' = enat 120000"
  using parseTimeToMs_eval [of "''2''" "CHR ''m''" "[]"]
  by (simp add: is_digit_def is_unit_char_def decimal_def digit_val_def ms_per_unit_def)

lemma parse_1h: "parseTimeToMs ''1h'' = enat 3600000"
  using parseTimeToMs_eval [of "''1''" "CHR ''h''" "[]"]
  by (simp add: is_digit_def is_unit_char_def decimal_def digit_val_def ms_per_unit_def)




text \<open>
  Claim C4, as amended. On a string that is a non-empty run of digits followed by one
  unit letter \<open>s\<close>, \<open>m\<close> or \<open>h\<close>, the parser reads the whole digit run as a decimal
  number. When that number times 1000, 60000 or 3600000 is below \<open>2^53\<close>, which holds
  for every run of at most nine digits, the result is that product exactly. The three
  examples of the specification are of this kind.
\<close>

theorem parseTimeToMs_well_formed:
  assumes "ds \<noteq> []" and "list_all is_digit ds" and "is_unit_char u"
  shows "duration_form (ds @ [u]) \<and>
         (decimal ds * ms_per_unit u < 2 ^ 53 \<longrightarrow>
            parseTimeToMs (ds @ [u]) = enat (decimal ds * ms_per_unit u)) \<and>
         (length ds \<le> 9 \<longrightarrow> parseTimeToMs (ds @ [u]) = enat (decimal ds * ms_per_unit u)) \<and>
         ms_per_unit CHR ''s'' = 1000 \<and> ms_per_unit CHR ''m'' = 60000 \<and> ms_per_unit CHR ''h'' = 3600000 \<and>
         parseTimeToMs ''30s'' = enat 30000 \<and> parseTimeToMs ''2m'' = enat 120000 \<and>
         parseTimeToMs ''1h'' = enat 3600000"
proof -
  have 1: "duration_form (ds @ [u])"
    using assms by (simp add: duration_form_def)
  have 2: "decimal ds * ms_per_unit u < 2 ^ 53 \<longrightarrow>
            parseTimeToMs (ds @ [u]) = enat (decimal ds * ms_per_unit u)"
    using parseTimeToMs_eval [OF assms, of "[]"] by blast
  have 3: "length ds \<le> 9 \<longrightarrow> parseTimeToMs (ds @ [u]) = enat (decimal ds * ms_per_unit u)"
    using 2 short_run_exact [OF assms(2), of u] by blast
  have 4: "ms_per_unit CHR ''s'' = 1000" "ms_per_unit CHR ''m'' = 60000"
    "ms_per_unit CHR ''h'' = 3600000"
    by (simp_all add: ms_per_unit_def)
  show ?thesis by (intro conjI) (rule 1 2 3 4 parse_30s parse_2m parse_1h)+
qed

theorem parseTimeToMs_well_formed_witness:
  "''45'' \<noteq> [] \<and> list_all is_digit ''45'' \<and> is_unit_char CHR ''m'' \<and>
   decimal ''45'' * ms_per_unit CHR ''m'' < 2 ^ 53 \<and> length ''45'' \<le> 9 \<and>
   decimal ''45'' = 45 \<and> parseTimeToMs ''45m'' = enat 2700000"
proof -
  have a: "''45'' \<noteq> []" by simp
  have b: "list_all is_digit ''45''" by (simp add: is_digit_def)
  have c: "is_unit_char CHR ''m''" by (simp add: is_unit_char_def)
  have d: "decimal ''45'' = 45" by (simp add: decimal_def digit_val_def)
  have e: "decimal ''45'' * ms_per_unit CHR ''m'' < 2 ^ 53" by (simp add: d ms_per_unit_def)
  have l: "length ''45'' \<le> 9" by simp
  note t = parseTimeToMs_well_formed [OF a b c, THEN conjunct2, THEN conjunct1, rule_format, OF e]
  have v: "parseTimeToMs ''45m'' = enat 2700000"
    using t by (simp add: d ms_per_unit_def)
  show ?thesis by (intro conjI) (rule a b c e l d v)+
qed

text \<open>
  Claim C4 as stated fails for a long digit run: \<^verbatim>\<open>parseInt\<close> returns a double, and
  \<open>2^53 + 1\<close> is not one. On \<^verbatim>\<open>"9007199254740993s"\<close> the value read is
  9007199254740992, and the result is 9007199254740992000, not 9007199254740993 times
  1000.
\<close>

theorem parseTimeToMs_well_formed_counterexample:
  "duration_form ''9007199254740993s'' \<and> decimal ''9007199254740993'' = 9007199254740993 \<and>
   parseInt ''9007199254740993'' = enat 9007199254740992 \<and>
   parseTimeToMs ''9007199254740993s'' = enat 9007199254740992000 \<and>
   parseTimeToMs ''9007199254740993s'' \<noteq> enat (9007199254740993 * 1000)"
proof -
  have f: "duration_form ''9007199254740993s''"
    by (simp add: duration_form_def is_digit_def is_unit_char_def)
  have d: "decimal ''9007199254740993'' = 9007199254740993"
    by (simp add: decimal_def digit_val_def)
  have r: "to_double 9007199254740993 = enat 9007199254740992"
    using to_double_round [of 1 9007199254740993] by simp
  have p: "parseInt ''9007199254740993'' = enat 9007199254740992"
    by (simp only: parseInt_def d r)
  have t: "to_double 9007199254740992000 = enat 9007199254740992000"
    using to_double_round [of 10 9007199254740992000] by simp
  have m: "regex_match ''9007199254740993s'' = Some (''9007199254740993'', CHR ''s'')"
    using regex_match_well_formed [of "''9007199254740993''" "CHR ''s''" "[]"]
    by (simp add: is_digit_def is_unit_char_def)
  have v: "parseTimeToMs ''9007199254740993s'' = enat 9007199254740992000"
    unfolding parseTimeToMs_def m by (simp add: p js_times_def t)
  have n: "parseTimeToMs ''9007199254740993s'' \<noteq> enat (9007199254740993 * 1000)"
    unfolding v by simp
  show ?thesis by (intro conjI) (rule f d p v n)+
qed





section \<open>Properties of the rate-limit advisor\<close>

lemma or_zero_candidate_nonneg: "0 \<le> or_zero (candidate_wait r l s thr)"
  by simp

lemma dimension_step:
  assumes "0 \<le> w"
  shows "(case (r, l) of
            (Some remaining, Some limit) \<Rightarrow>
              (let ratio = js_div remaining limit in
               if js_lt ratio thr \<and> truthy reset
               then max w (parseTimeToMs (string_of reset)) else w)
          | _ \<Rightarrow> w) = max w (or_zero (candidate_wait r l reset thr))"
proof (cases r)
  case None
  then show ?thesis using assms by (simp add: candidate_wait_def or_zero_def)
next
  case r: (Some remaining)
  show ?thesis
  proof (cases l)
    case None
    then show ?thesis using assms r by (simp add: candidate_wait_def or_zero_def)
  next
    case l: (Some limit)
    show ?thesis
    proof (cases reset)
      case None
      then show ?thesis using assms r l by (simp add: candidate_wait_def or_zero_def truthy_def)
    next
      case (Some s)
      then show ?thesis using assms r l
        by (cases "s = []")
           (simp_all add: candidate_wait_def or_zero_def truthy_def string_of_def parseTimeToMs_Nil)
    qed
  qed
qed

lemma shouldWait_max:
  "shouldWaitForRateLimit info thr =
     max (or_zero (candidate_wait (remainingRequests info) (limitRequests info) (resetRequests info) thr))
         (or_zero (candidate_wait (remainingTokens info) (limitTokens info) (resetTokens info) thr))"
proof -
  let ?c1 = "or_zero (candidate_wait (remainingRequests info) (limitRequests info) (resetRequests info) thr)"
  have 1: "max 0 ?c1 = ?c1" using or_zero_candidate_nonneg by (simp add: max_def)
  have 0: "(0::enat) \<le> 0" by simp
  show ?thesis
    unfolding shouldWaitForRateLimit_def Let_def dimension_step [OF 0, unfolded Let_def] 1
    using dimension_step [OF or_zero_candidate_nonneg, unfolded Let_def] by simp
qed





text \<open>
  Claim C9, as amended. The parser returns 0 when the pattern does not match. When it
  matches and the number of the digit run times the factor of the unit is below \<open>2^53\<close>,
  which holds for every run of at most nine digits, the result is that product exactly:
  a nonnegative integer and a multiple of 1000. The advisor returns 0 or the parser's
  value of one of the two reset strings.
\<close>

theorem results_nonneg_multiple:
  "(regex_match s = None \<longrightarrow> parseTimeToMs s = 0) \<and>
   (regex_match s = Some (ds, u) \<longrightarrow> decimal ds * ms_per_unit u < 2 ^ 53 \<longrightarrow>
      parseTimeToMs s = enat (decimal ds * ms_per_unit u) \<and> 1000 dvd decimal ds * ms_per_unit u) \<and>
   (regex_match s = Some (ds, u) \<longrightarrow> length ds \<le> 9 \<longrightarrow> decimal ds * ms_per_unit u < 2 ^ 53) \<and>
   (shouldWaitForRateLimit info threshold = 0 \<or>
    (\<exists>t. resetRequests info = Some t \<and> shouldWaitForRateLimit info threshold = parseTimeToMs t) \<or>
    (\<exists>t. resetTokens info = Some t \<and> shouldWaitForRateLimit info threshold = parseTimeToMs t))"
proof -
  have 1: "regex_match s = None \<longrightarrow> parseTimeToMs s = 0"
    by (simp add: parseTimeToMs_None)
  have 2: "regex_match s = Some (ds, u) \<longrightarrow> decimal ds * ms_per_unit u < 2 ^ 53 \<longrightarrow>
      parseTimeToMs s = enat (decimal ds * ms_per_unit u) \<and> 1000 dvd decimal ds * ms_per_unit u"
  proof (intro impI conjI)
    assume m: "regex_match s = Some (ds, u)" and b: "decimal ds * ms_per_unit u < 2 ^ 53"
    from m have "is_unit_char u" by (rule regex_match_unit)
    with m show "parseTimeToMs s = enat (decimal ds * ms_per_unit u)"
      using b by (rule parseTimeToMs_match_exact)
    show "1000 dvd decimal ds * ms_per_unit u"
      using ms_per_unit_dvd [of u] by (rule dvd_mult)
  qed
  have 3: "regex_match s = Some (ds, u) \<longrightarrow> length ds \<le> 9 \<longrightarrow> decimal ds * ms_per_unit u < 2 ^ 53"
  proof (intro impI)
    assume m: "regex_match s = Some (ds, u)" and l: "length ds \<le> 9"
    from regex_match_Some [OF m] have "list_all is_digit ds" by blast
    then show "decimal ds * ms_per_unit u < 2 ^ 53" using l by (rule short_run_exact)
  qed
  define c1 where "c1 = or_zero (candidate_wait (remainingRequests info) (limitRequests info)
      (resetRequests info) threshold)"
  define c2 where "c2 = or_zero (candidate_wait (remainingTokens info) (limitTokens info)
      (resetTokens info) threshold)"
  have c: "or_zero (candidate_wait r l x threshold) = 0 \<or>
      (\<exists>t. x = Some t \<and> or_zero (candidate_wait r l x threshold) = parseTimeToMs t)" for r l x
    by (auto simp: or_zero_def candidate_wait_def split: option.splits)
  have w: "shouldWaitForRateLimit info threshold = max c1 c2"
    unfolding c1_def c2_def by (rule shouldWait_max)
  have k1: "c1 = 0 \<or> (\<exists>t. resetRequests info = Some t \<and> c1 = parseTimeToMs t)"
    unfolding c1_def by (rule c)
  have k2: "c2 = 0 \<or> (\<exists>t. resetTokens info = Some t \<and> c2 = parseTimeToMs t)"
    unfolding c2_def by (rule c)
  have 4: "shouldWaitForRateLimit info threshold = 0 \<or>
    (\<exists>t. resetRequests info = Some t \<and> shouldWaitForRateLimit info threshold = parseTimeToMs t) \<or>
    (\<exists>t. resetTokens info = Some t \<and> shouldWaitForRateLimit info threshold = parseTimeToMs t)"
  proof (cases "c1 \<le> c2")
    case True
    then have "shouldWaitForRateLimit info threshold = c2" using w by (simp add: max_def)
    with k2 show ?thesis by auto
  next
    case False
    then have "shouldWaitForRateLimit info threshold = c1" using w by (simp add: max_def)
    with k1 show ?thesis by auto
  qed
  show ?thesis by (intro conjI) (rule 1 2 3 4)+
qed

theorem results_nonneg_multiple_witness:
  "regex_match ''abc'' = None \<and> parseTimeToMs ''abc'' = 0 \<and>
   regex_match ''30s'' = Some (''30'', CHR ''s'') \<and>
   decimal ''30'' * ms_per_unit CHR ''s'' < 2 ^ 53 \<and> length ''30'' \<le> 9 \<and>
   parseTimeToMs ''30s'' = enat 30000 \<and> (1000::nat) dvd 30000"
proof -
  have n: "regex_match ''abc'' = None"
    unfolding regex_match_None_iff by (simp add: is_digit_def)
  have m: "regex_match ''30s'' = Some (''30'', CHR ''s'')"
    using regex_match_well_formed [of "''30''" "CHR ''s''" "[]"]
    by (simp add: is_digit_def is_unit_char_def)
  have d: "decimal ''30'' * ms_per_unit CHR ''s'' = 30000"
    by (simp add: decimal_def digit_val_def ms_per_unit_def)
  have l: "length ''30'' \<le> 9" by simp
  note a = results_nonneg_multiple [of "''abc''", THEN conjunct1, rule_format, OF n]
  note b = results_nonneg_multiple [of "''30s''" "''30''" "CHR ''s''", THEN conjunct2, THEN conjunct2,
      THEN conjunct1, rule_format, OF m l]
  note c = results_nonneg_multiple [of "''30s''" "''30''" "CHR ''s''", THEN conjunct2, THEN conjunct1,
      rule_format, OF m b]
  have v: "parseTimeToMs ''30s'' = enat 30000" using c by (simp add: d)
  have k: "(1000::nat) dvd 30000" using c by (simp add: d)
  show ?thesis by (intro conjI) (rule n a m b l v k)+
qed

text \<open>
  Claim C9 as stated fails for a long digit run: the product is a double. On
  \<^verbatim>\<open>"100000000000001s"\<close> the exact product 100000000000001000 lies halfway between two
  doubles, the result is the one with the even significand, 100000000000000992, and that
  is no multiple of 1000.
\<close>

theorem results_nonneg_multiple_counterexample:
  "parseTimeToMs ''100000000000001s'' = enat 100000000000000992 \<and>
   \<not> (1000::nat) dvd 100000000000000992"
proof -
  have d: "decimal ''100000000000001'' = 100000000000001"
    by (simp add: decimal_def digit_val_def)
  have p: "parseInt ''100000000000001'' = enat 100000000000001"
    by (simp add: parseInt_def d to_double_exact)
  have t: "to_double 100000000000001000 = enat 100000000000000992"
    using to_double_round [of 4 100000000000001000] by simp
  have m: "regex_match ''100000000000001s'' = Some (''100000000000001'', CHR ''s'')"
    using regex_match_well_formed [of "''100000000000001''" "CHR ''s''" "[]"]
    by (simp add: is_digit_def is_unit_char_def)
  have v: "parseTimeToMs ''100000000000001s'' = enat 100000000000000992"
    unfolding parseTimeToMs_def m by (simp add: p js_times_def t)
  have n: "\<not> (1000::nat) dvd 100000000000000992" by simp
  from v n show ?thesis by (intro conjI)
qed

lemma js_div_zero_limit:
  assumes "is_zero l"
  shows "js_div r l = (if r = NaN \<or> is_zero r then NaN else signed_inf (negative r \<noteq> negative l))"
  using assms by (cases l; cases r) (simp_all add: js_div_def)

lemma js_lt_PosInf: "\<not> js_lt PosInf t"
  by (simp add: js_lt_def)

lemma js_lt_NaN: "\<not> js_lt NaN t"
  by (simp add: js_lt_def)

lemma js_lt_NegInf: "js_lt NegInf t \<longleftrightarrow> t \<noteq> NaN \<and> t \<noteq> NegInf"
  by (cases t) (simp_all add: js_lt_def)

text \<open>
  Claim C10, as amended. When the limit of a dimension is zero, the quotient
  \<^verbatim>\<open>remaining / limit\<close> is never finite: it is \<open>+Infinity\<close>, \<open>-Infinity\<close> or NaN. It is
  \<open>-Infinity\<close> exactly when the remaining count is a non-zero number whose sign differs
  from the sign of the zero; the dimension is then a candidate for every threshold other
  than NaN and \<open>-Infinity\<close>. In every other case (in particular a remaining count that is
  positive, zero or NaN over the positive zero) the dimension is no candidate, and the
  advisor returns what it returns without that dimension.
\<close>

theorem zero_limit_dimension:
  assumes "is_zero limit"
  shows "(js_div remaining limit = PosInf \<or> js_div remaining limit = NegInf \<or> js_div remaining limit = NaN) \<and>
         (js_div remaining limit = NegInf \<longleftrightarrow>
            remaining \<noteq> NaN \<and> \<not> is_zero remaining \<and> negative remaining \<noteq> negative limit) \<and>
         (js_div remaining limit \<noteq> NegInf \<longrightarrow>
            candidate_wait (Some remaining) (Some limit) reset threshold = None) \<and>
         (js_div remaining limit \<noteq> NegInf \<longrightarrow>
            limitRequests info = Some limit \<longrightarrow> remainingRequests info = Some remaining \<longrightarrow>
            shouldWaitForRateLimit info threshold =
              shouldWaitForRateLimit (info\<lparr>remainingRequests := None\<rparr>) threshold) \<and>
         (js_div remaining limit \<noteq> NegInf \<longrightarrow>
            limitTokens info = Some limit \<longrightarrow> remainingTokens info = Some remaining \<longrightarrow>
            shouldWaitForRateLimit info threshold =
              shouldWaitForRateLimit (info\<lparr>remainingTokens := None\<rparr>) threshold) \<and>
         (js_div remaining limit = NegInf \<longrightarrow>
            candidate_wait (Some remaining) (Some limit) (Some s) threshold =
              (if threshold = NaN \<or> threshold = NegInf then None else Some (parseTimeToMs s)))"
proof -
  note q = js_div_zero_limit [OF assms, of remaining]
  have 1: "js_div remaining limit = PosInf \<or> js_div remaining limit = NegInf \<or> js_div remaining limit = NaN"
    unfolding q by (simp add: signed_inf_def)
  have 2: "js_div remaining limit = NegInf \<longleftrightarrow>
            remaining \<noteq> NaN \<and> \<not> is_zero remaining \<and> negative remaining \<noteq> negative limit"
    unfolding q by (simp add: signed_inf_def)
  have 3: "candidate_wait (Some remaining) (Some limit) x threshold = None"
    if "js_div remaining limit \<noteq> NegInf" for x
    using 1 that by (auto simp: candidate_wait_def js_lt_PosInf js_lt_NaN split: option.splits)
  have 0: "candidate_wait None l x threshold = None" for l x
    by (simp add: candidate_wait_def)
  have 4: "js_div remaining limit = NegInf \<longrightarrow>
            candidate_wait (Some remaining) (Some limit) (Some s) threshold =
              (if threshold = NaN \<or> threshold = NegInf then None else Some (parseTimeToMs s))"
    by (simp add: candidate_wait_def js_lt_NegInf)
  have 5: "js_div remaining limit \<noteq> NegInf \<longrightarrow>
            limitRequests info = Some limit \<longrightarrow> remainingRequests info = Some remaining \<longrightarrow>
            shouldWaitForRateLimit info threshold =
              shouldWaitForRateLimit (info\<lparr>remainingRequests := None\<rparr>) threshold"
    using 3 by (simp add: shouldWait_max 0)
  have 6: "js_div remaining limit \<noteq> NegInf \<longrightarrow>
            limitTokens info = Some limit \<longrightarrow> remainingTokens info = Some remaining \<longrightarrow>
            shouldWaitForRateLimit info threshold =
              shouldWaitForRateLimit (info\<lparr>remainingTokens := None\<rparr>) threshold"
    using 3 by (simp add: shouldWait_max 0)
  have 7: "js_div remaining limit \<noteq> NegInf \<longrightarrow>
            candidate_wait (Some remaining) (Some limit) reset threshold = None"
    using 3 by simp
  show ?thesis by (intro conjI) (rule 1 2 7 5 6 4)+
qed

theorem zero_limit_dimension_witness:
  "is_zero (Fin 0) \<and> js_div (Fin 3) (Fin 0) = PosInf \<and>
   candidate_wait (Some (Fin 3)) (Some (Fin 0)) (Some ''30s'') default_threshold = None \<and>
   shouldWaitForRateLimit
     \<lparr>limitRequests = Some (Fin 0), limitTokens = None,
      remainingRequests = Some (Fin 3), remainingTokens = None,
      resetRequests = Some ''30s'', resetTokens = None\<rparr> default_threshold = 0 \<and>
   js_div (Fin (- 2)) (Fin 0) = NegInf \<and>
   candidate_wait (Some (Fin (- 2))) (Some (Fin 0)) (Some ''30s'') default_threshold = Some (enat 30000)"
proof -
  let ?info = "\<lparr>limitRequests = Some (Fin 0), limitTokens = None,
        remainingRequests = Some (Fin 3), remainingTokens = None,
        resetRequests = Some ''30s'', resetTokens = None\<rparr>"
  have z: "is_zero (Fin 0)" by simp
  have q: "js_div (Fin 3) (Fin 0) = PosInf" by (simp add: js_div_def signed_inf_def)
  have q': "js_div (Fin 3) (Fin 0) \<noteq> NegInf" by (simp add: q)
  have m: "js_div (Fin (- 2)) (Fin 0) = NegInf" by (simp add: js_div_def signed_inf_def)
  note t = zero_limit_dimension [OF z, of "Fin 3" "Some ''30s''" default_threshold ?info]
  have 1: "candidate_wait (Some (Fin 3)) (Some (Fin 0)) (Some ''30s'') default_threshold = None"
    using t q' by blast
  have "shouldWaitForRateLimit ?info default_threshold
          = shouldWaitForRateLimit (?info\<lparr>remainingRequests := None\<rparr>) default_threshold"
    using t q' by simp
  then have 2: "shouldWaitForRateLimit ?info default_threshold = 0"
    by (simp add: shouldWait_max candidate_wait_def or_zero_def)
  note u = zero_limit_dimension [OF z, of "Fin (- 2)" None default_threshold ?info "''30s''"]
  have 3: "candidate_wait (Some (Fin (- 2))) (Some (Fin 0)) (Some ''30s'') default_threshold
             = Some (enat 30000)"
    using u m by (simp add: default_threshold_def parse_30s)
  show ?thesis by (intro conjI) (rule z q 1 2 m 3)+
qed

text \<open>
  Claim C10 as stated fails for a negative remaining count: \<^verbatim>\<open>-1 / 0\<close> is \<open>-Infinity\<close>,
  which is strictly below the threshold 0.1, so the dimension is a candidate and the
  advisor returns the parsed reset duration.
\<close>

theorem zero_limit_counterexample:
  "js_div (Fin (- 1)) (Fin 0) = NegInf \<and>
   shouldWaitForRateLimit
     \<lparr>limitRequests = Some (Fin 0), limitTokens = None,
      remainingRequests = Some (Fin (- 1)), remainingTokens = None,
      resetRequests = Some ''30s'', resetTokens = None\<rparr> default_threshold = enat 30000"
  by (simp add: shouldWait_max candidate_wait_def or_zero_def js_div_def js_lt_def signed_inf_def
      default_threshold_def parse_30s)


section \<open>Properties of the result analyzer\<close>

lemma insert_by_insort: "insert_by compare_scores x ys = insort_key (\<lambda>e. - snd e) x ys"
  by (induction ys) (auto simp: compare_scores_def split: prod.splits)

lemma array_sort_sort_key: "array_sort compare_scores xs = sort_key (\<lambda>e. - snd e) xs"
proof -
  have "insert_by compare_scores = insort_key (\<lambda>e. - snd e)"
    by (intro ext) (rule insert_by_insort)
  then show ?thesis by (simp add: array_sort_def sort_key_def)
qed

lemma sorted_desc_sort_key:
  "sorted_wrt (\<lambda>x y. snd y \<le> (snd x :: real)) (sort_key (\<lambda>e. - snd e) xs)"
proof -
  have "sorted (map (\<lambda>e. - snd e) (sort_key (\<lambda>e. - snd e) xs))" by (rule sorted_sort_key)
  then show ?thesis by (simp add: sorted_map)
qed

lemma sorted_wrt_take: "sorted_wrt P xs \<Longrightarrow> sorted_wrt P (take n xs)"
  by (metis append_take_drop_id sorted_wrt_append)

lemma flagged_filter_map_of:
  "distinct (map fst ps) \<Longrightarrow>
     map fst (filter snd ps) = filter (\<lambda>c. map_of ps c = Some True) (map fst ps)"
proof (induction ps)
  case Nil then show ?case by simp
next
  case (Cons p ps)
  obtain c b where p: "p = (c, b)" by (cases p)
  from Cons.prems p have notin: "c \<notin> set (map fst ps)" and d: "distinct (map fst ps)" by simp_all
  have "filter (\<lambda>k. map_of (p # ps) k = Some True) (map fst ps)
        = filter (\<lambda>k. map_of ps k = Some True) (map fst ps)"
    using notin p by (intro filter_cong) auto
  then show ?case using Cons.IH [OF d] p by simp
qed

lemma all_categories_UNIV: "set all_categories = UNIV"
proof -
  have "c \<in> set all_categories" for c by (cases c) (simp_all add: all_categories_def)
  then show ?thesis by blast
qed


lemma high_scores_sorted:
  fixes es :: "(ModerationCategory \<times> real) list" and P :: "ModerationCategory \<times> real \<Rightarrow> bool"
  defines "ys \<equiv> array_sort compare_scores (filter P es)"
  shows "mset ys = mset (filter P es)"
    and "sorted_wrt (\<lambda>x y. snd y \<le> snd x) ys"
    and "filter (\<lambda>e. snd e = k) ys = filter (\<lambda>e. snd e = k) (filter P es)"
    and "\<forall>e \<in> set (take n ys). P e"
proof -
  show m: "mset ys = mset (filter P es)" by (simp add: ys_def array_sort_sort_key)
  show "sorted_wrt (\<lambda>x y. snd y \<le> snd x) ys"
    by (simp add: ys_def array_sort_sort_key sorted_desc_sort_key)
  have "filter (\<lambda>e. - snd e = - k) (sort_key (\<lambda>e. - snd e) (filter P es))
          = filter (\<lambda>e. - snd e = - k) (filter P es)"
    by (rule sort_key_stable)
  then show "filter (\<lambda>e. snd e = k) ys = filter (\<lambda>e. snd e = k) (filter P es)"
    by (simp add: ys_def array_sort_sort_key)
  have "set ys = set (filter P es)" using m by (rule mset_eq_setD)
  then show "\<forall>e \<in> set (take n ys). P e"
    using set_take_subset [of n ys] by auto
qed

lemma high_score_snd: "high_score e \<Longrightarrow> snd e > 1 / 10"
  by (cases e) (simp add: high_score_def)

lemma high_score_eq: "high_score = (\<lambda>e. snd e > 1 / 10)"
  by (auto simp: fun_eq_iff high_score_def)

lemma is_flagged_eq: "is_flagged = snd"
  by (auto simp: fun_eq_iff is_flagged_def)

lemma category_of_eq: "category_of = fst"
  by (auto simp: fun_eq_iff category_of_def)

lemma map_filter_cong_set:
  "(\<And>x. x \<in> set xs \<Longrightarrow> f x = g x) \<Longrightarrow> List.map_filter f xs = List.map_filter g xs"
  by (induction xs) (simp_all split: option.split)

lemma entries_by_keys:
  "distinct (map fst ps) \<Longrightarrow>
     List.map_filter (\<lambda>c. map_option (Pair c) (map_of ps c)) (map fst ps) = ps"
proof (induction ps)
  case Nil
  show ?case by (simp add: List.map_filter_simps)
next
  case (Cons p ps)
  obtain c v where p: "p = (c, v)" by (cases p)
  from Cons.prems p have notin: "c \<notin> set (map fst ps)" and d: "distinct (map fst ps)" by simp_all
  have "List.map_filter (\<lambda>k. map_option (Pair k) (map_of (p # ps) k)) (map fst ps)
          = List.map_filter (\<lambda>k. map_option (Pair k) (map_of ps k)) (map fst ps)"
    using notin p by (intro map_filter_cong_set) auto
  then show ?case using Cons.IH [OF d] p by (simp add: List.map_filter_simps)
qed

lemma distinct_all_categories: "distinct all_categories"
  by (simp add: all_categories_def)

lemma entries_in_enum_order_canonical:
  assumes "map fst ps = all_categories"
  shows "entries_in_enum_order ps = ps"
proof -
  have "distinct (map fst ps)" unfolding assms by (rule distinct_all_categories)
  from entries_by_keys [OF this] show ?thesis
    by (simp only: entries_in_enum_order_def assms)
qed

lemma flagged_highScores:
  assumes "flagged r"
  shows "\<exists>a ys. analyzeResult r = Some a \<and> highScores a = take 3 ys \<and>
           mset ys = mset (filter high_score (category_scores r)) \<and>
           sorted_wrt (\<lambda>x y. snd y \<le> snd x) ys \<and>
           (\<forall>k. filter (\<lambda>e. snd e = k) ys =
                filter (\<lambda>e. snd e = k) (filter high_score (category_scores r))) \<and>
           (map fst (category_scores r) = all_categories \<longrightarrow> highScores a = topScores_spec r) \<and>
           length (highScores a) \<le> 3 \<and>
           sorted_wrt (\<lambda>x y. snd y \<le> snd x) (highScores a) \<and>
           (\<forall>e \<in> set (highScores a). snd e > 1 / 10)"
proof -
  define ys where "ys = array_sort compare_scores (filter high_score (category_scores r))"
  define a where "a = \<lparr>flaggedCategories = map category_of (filter is_flagged (categories r)),
             highScores = take 3 ys\<rparr>"
  have a: "analyzeResult r = Some a"
    unfolding analyzeResult_def a_def ys_def using assms by (simp only: if_True)
  have h: "highScores a = take 3 ys" by (simp only: a_def analysis.simps)
  have m: "mset ys = mset (filter high_score (category_scores r))"
    unfolding ys_def by (rule high_scores_sorted)
  have s: "sorted_wrt (\<lambda>x y. snd y \<le> snd x) ys"
    unfolding ys_def by (rule high_scores_sorted)
  have st: "\<forall>k. filter (\<lambda>e. snd e = k) ys
                = filter (\<lambda>e. snd e = k) (filter high_score (category_scores r))"
    unfolding ys_def by (intro allI) (rule high_scores_sorted)
  have sp: "map fst (category_scores r) = all_categories \<longrightarrow> highScores a = topScores_spec r"
  proof
    assume "map fst (category_scores r) = all_categories"
    then have "entries_in_enum_order (category_scores r) = category_scores r"
      by (rule entries_in_enum_order_canonical)
    then show "highScores a = topScores_spec r"
      by (simp only: h ys_def topScores_spec_def array_sort_sort_key high_score_eq)
  qed
  have l: "length (highScores a) \<le> 3" by (simp only: h length_take min.cobounded2)
  have s3: "sorted_wrt (\<lambda>x y. snd y \<le> snd x) (highScores a)"
    unfolding h using s by (rule sorted_wrt_take)
  have "\<forall>e \<in> set (take 3 ys). high_score e" unfolding ys_def by (rule high_scores_sorted)
  then have g: "\<forall>e \<in> set (highScores a). snd e > 1 / 10"
    unfolding h by (blast intro: high_score_snd)
  from a h m s st sp l s3 g show ?thesis by blast
qed

lemma sort_example:
  "array_sort compare_scores
     [(SEXUAL_MINORS, 3 / 10), (HARASSMENT, 9 / 10), (HARASSMENT_THREATENING, 3 / 10),
      (HATE, 1 / 5), (VIOLENCE, 1 / 5)]
   = [(HARASSMENT, 9 / 10), (SEXUAL_MINORS, 3 / 10), (HARASSMENT_THREATENING, 3 / 10),
      (HATE, 1 / 5), (VIOLENCE, 1 / 5)]"
  by (simp add: array_sort_def compare_scores_def)

lemma example_result_analysis:
  "analyzeResult example_result =
     Some \<lparr>flaggedCategories = [HARASSMENT],
           highScores = [(HARASSMENT, 9 / 10), (SEXUAL_MINORS, 3 / 10), (HARASSMENT_THREATENING, 3 / 10)]\<rparr>"
  by (simp add: analyzeResult_def example_result_def all_categories_def sort_example
      high_score_def is_flagged_def category_of_def)

text \<open>
  Claim C1, as amended. For a flagged result, the high scores are the first three entries
  of a list that holds exactly the entries of \<^verbatim>\<open>category_scores\<close> with a score strictly
  above 0.1, is sorted by descending score, and keeps entries of equal score in the order
  in which the \<^verbatim>\<open>category_scores\<close> object enumerates its own properties. So they are at
  most three, sorted and all above 0.1; when the object lists its keys in the order of
  the enumeration, they are the top scores of the specification. For a result that is not
  flagged nothing is computed.
\<close>

theorem analyzeResult_highScores:
  "(flagged r \<longrightarrow>
      (\<exists>a ys. analyzeResult r = Some a \<and> highScores a = take 3 ys \<and>
           mset ys = mset (filter high_score (category_scores r)) \<and>
           sorted_wrt (\<lambda>x y. snd y \<le> snd x) ys \<and>
           (\<forall>k. filter (\<lambda>e. snd e = k) ys =
                filter (\<lambda>e. snd e = k) (filter high_score (category_scores r))) \<and>
           (map fst (category_scores r) = all_categories \<longrightarrow> highScores a = topScores_spec r) \<and>
           length (highScores a) \<le> 3 \<and>
           sorted_wrt (\<lambda>x y. snd y \<le> snd x) (highScores a) \<and>
           (\<forall>e \<in> set (highScores a). snd e > 1 / 10))) \<and>
   (\<not> flagged r \<longrightarrow> analyzeResult r = None)"
proof (intro conjI impI)
  assume "flagged r"
  then show "\<exists>a ys. analyzeResult r = Some a \<and> highScores a = take 3 ys \<and>
           mset ys = mset (filter high_score (category_scores r)) \<and>
           sorted_wrt (\<lambda>x y. snd y \<le> snd x) ys \<and>
           (\<forall>k. filter (\<lambda>e. snd e = k) ys =
                filter (\<lambda>e. snd e = k) (filter high_score (category_scores r))) \<and>
           (map fst (category_scores r) = all_categories \<longrightarrow> highScores a = topScores_spec r) \<and>
           length (highScores a) \<le> 3 \<and>
           sorted_wrt (\<lambda>x y. snd y \<le> snd x) (highScores a) \<and>
           (\<forall>e \<in> set (highScores a). snd e > 1 / 10)"
    by (rule flagged_highScores)
next
  assume "\<not> flagged r"
  then show "analyzeResult r = None" by (simp add: analyzeResult_def)
qed

theorem analyzeResult_highScores_witness:
  "flagged example_result \<and> map fst (category_scores example_result) = all_categories \<and>
   (\<exists>a. analyzeResult example_result = Some a \<and>
        highScores a = [(HARASSMENT, 9 / 10), (SEXUAL_MINORS, 3 / 10), (HARASSMENT_THREATENING, 3 / 10)] \<and>
        highScores a = topScores_spec example_result) \<and>
   \<not> flagged (example_result\<lparr>flagged := False\<rparr>) \<and>
   analyzeResult (example_result\<lparr>flagged := False\<rparr>) = None"
proof -
  have f: "flagged example_result" by (simp add: example_result_def)
  have k: "map fst (category_scores example_result) = all_categories"
    by (simp add: example_result_def comp_def)
  have n: "\<not> flagged (example_result\<lparr>flagged := False\<rparr>)" by simp
  from analyzeResult_highScores [of example_result, THEN conjunct1, rule_format, OF f] k obtain a
    where a: "analyzeResult example_result = Some a"
      and s: "highScores a = topScores_spec example_result"
    by blast
  have "highScores a = [(HARASSMENT, 9 / 10), (SEXUAL_MINORS, 3 / 10), (HARASSMENT_THREATENING, 3 / 10)]"
    using a example_result_analysis by auto
  with a s have 1: "\<exists>a. analyzeResult example_result = Some a \<and>
        highScores a = [(HARASSMENT, 9 / 10), (SEXUAL_MINORS, 3 / 10), (HARASSMENT_THREATENING, 3 / 10)] \<and>
        highScores a = topScores_spec example_result"
    by (intro exI conjI)
  note 2 = analyzeResult_highScores [of "example_result\<lparr>flagged := False\<rparr>", THEN conjunct2,
      rule_format, OF n]
  show ?thesis by (intro conjI) (rule f k 1 n 2)+
qed

lemma reordered_scores_well_formed: "well_formed_object (category_scores reordered_result)"
  unfolding well_formed_object_def reordered_result_def all_categories_def
  by (simp add: comp_def) blast

lemma reordered_highScores:
  "map_option highScores (analyzeResult reordered_result) = Some [(HARASSMENT, 4 / 5), (SEXUAL, 4 / 5)]"
  by (simp add: analyzeResult_def reordered_result_def high_score_def array_sort_def
      compare_scores_def)

lemma unflagged_topScores: "topScores_spec unflagged_result = [(VIOLENCE, 1 / 5)]"
  by (simp add: topScores_spec_def entries_in_enum_order_def unflagged_result_def
      all_categories_def List.map_filter_simps)

lemma reordered_topScores:
  "topScores_spec reordered_result = [(SEXUAL, 4 / 5), (HARASSMENT, 4 / 5)]"
  by (simp add: topScores_spec_def entries_in_enum_order_def reordered_result_def
      all_categories_def List.map_filter_simps)

text \<open>
  Claim C1 as stated fails in two ways. For a result that is not flagged the block that
  computes the high scores is skipped, whatever the scores are: here one score is 0.2,
  the top scores of the specification are that entry, and the analyzer computes nothing.
  For a flagged result whose \<^verbatim>\<open>category_scores\<close> object lists \<^verbatim>\<open>harassment\<close> before
  \<^verbatim>\<open>sexual\<close>, both with the score 0.8, the tie follows the object and not the
  enumeration.
\<close>

theorem analyzeResult_highScores_counterexample:
  "\<not> flagged unflagged_result \<and> analyzeResult unflagged_result = None \<and>
   topScores_spec unflagged_result = [(VIOLENCE, 1 / 5)] \<and>
   flagged reordered_result \<and> well_formed_object (category_scores reordered_result) \<and>
   map_option highScores (analyzeResult reordered_result)
     = Some [(HARASSMENT, 4 / 5), (SEXUAL, 4 / 5)] \<and>
   topScores_spec reordered_result = [(SEXUAL, 4 / 5), (HARASSMENT, 4 / 5)]"
proof -
  have 1: "\<not> flagged unflagged_result" by (simp add: unflagged_result_def)
  have 2: "analyzeResult unflagged_result = None" by (simp add: analyzeResult_def 1)
  have 3: "flagged reordered_result" by (simp add: reordered_result_def)
  show ?thesis
    by (intro conjI)
      (rule 1 2 unflagged_topScores 3 reordered_scores_well_formed reordered_highScores
        reordered_topScores)+
qed

lemma flagged_flaggedCategories:
  assumes "flagged r"
  shows "\<exists>a. analyzeResult r = Some a \<and>
           flaggedCategories a = map fst (filter snd (categories r)) \<and>
           (distinct (map fst (categories r)) \<longrightarrow>
              flaggedCategories a =
                filter (\<lambda>c. map_of (categories r) c = Some True) (map fst (categories r))) \<and>
           (map fst (categories r) = all_categories \<longrightarrow>
              flaggedCategories a = flaggedCategories_spec r) \<and>
           ((\<forall>p \<in> set (categories r). \<not> snd p) \<longrightarrow> flaggedCategories a = [])"
proof -
  define a where "a = \<lparr>flaggedCategories = map category_of (filter is_flagged (categories r)),
             highScores = take 3 (array_sort compare_scores
                      (filter high_score (category_scores r)))\<rparr>"
  have a: "analyzeResult r = Some a"
    unfolding analyzeResult_def a_def using assms by (simp only: if_True)
  have f: "flaggedCategories a = map fst (filter snd (categories r))"
    by (simp only: a_def analysis.simps category_of_eq is_flagged_eq)
  have d: "distinct (map fst (categories r)) \<longrightarrow>
        flaggedCategories a = filter (\<lambda>c. map_of (categories r) c = Some True) (map fst (categories r))"
    unfolding f by (blast intro: flagged_filter_map_of)
  have dist: "distinct all_categories" by (simp add: all_categories_def)
  have c: "map fst (categories r) = all_categories \<longrightarrow> flaggedCategories a = flaggedCategories_spec r"
  proof
    assume k: "map fst (categories r) = all_categories"
    then have "distinct (map fst (categories r))" using dist by simp
    with d k show "flaggedCategories a = flaggedCategories_spec r"
      by (simp add: flaggedCategories_spec_def)
  qed
  have n: "(\<forall>p \<in> set (categories r). \<not> snd p) \<longrightarrow> flaggedCategories a = []"
    unfolding f by (simp add: filter_empty_conv)
  from a f d c n show ?thesis by blast
qed

text \<open>
  Claim C2, as amended. For a flagged result, the flagged categories are the keys of
  \<^verbatim>\<open>categories\<close> whose value is true, in the order in which the object enumerates its
  properties. With distinct keys these are the categories that the object maps to true;
  when the object lists its keys in the order of the enumeration, they are the flagged
  categories of the specification; when every value is false the list is empty. For a
  result that is not flagged nothing is computed.
\<close>

theorem analyzeResult_flaggedCategories:
  "(flagged r \<longrightarrow>
      (\<exists>a. analyzeResult r = Some a \<and>
           flaggedCategories a = map fst (filter snd (categories r)) \<and>
           (distinct (map fst (categories r)) \<longrightarrow>
              flaggedCategories a =
                filter (\<lambda>c. map_of (categories r) c = Some True) (map fst (categories r))) \<and>
           (map fst (categories r) = all_categories \<longrightarrow>
              flaggedCategories a = flaggedCategories_spec r) \<and>
           ((\<forall>p \<in> set (categories r). \<not> snd p) \<longrightarrow> flaggedCategories a = []))) \<and>
   (\<not> flagged r \<longrightarrow> analyzeResult r = None)"
proof (intro conjI impI)
  assume "flagged r"
  then show "\<exists>a. analyzeResult r = Some a \<and>
           flaggedCategories a = map fst (filter snd (categories r)) \<and>
           (distinct (map fst (categories r)) \<longrightarrow>
              flaggedCategories a =
                filter (\<lambda>c. map_of (categories r) c = Some True) (map fst (categories r))) \<and>
           (map fst (categories r) = all_categories \<longrightarrow>
              flaggedCategories a = flaggedCategories_spec r) \<and>
           ((\<forall>p \<in> set (categories r). \<not> snd p) \<longrightarrow> flaggedCategories a = [])"
    by (rule flagged_flaggedCategories)
next
  assume "\<not> flagged r"
  then show "analyzeResult r = None" by (simp add: analyzeResult_def)
qed

theorem analyzeResult_flaggedCategories_witness:
  "flagged example_result \<and> map fst (categories example_result) = all_categories \<and>
   distinct (map fst (categories example_result)) \<and>
   (\<exists>a. analyzeResult example_result = Some a \<and> flaggedCategories a = [HARASSMENT] \<and>
        flaggedCategories a = flaggedCategories_spec example_result) \<and>
   flagged (example_result\<lparr>categories := uniform_object False\<rparr>) \<and>
   list_all (\<lambda>p. \<not> snd p) (categories (example_result\<lparr>categories := uniform_object False\<rparr>)) \<and>
   (\<exists>a. analyzeResult (example_result\<lparr>categories := uniform_object False\<rparr>) = Some a \<and>
        flaggedCategories a = []) \<and>
   \<not> flagged (example_result\<lparr>flagged := False\<rparr>) \<and>
   analyzeResult (example_result\<lparr>flagged := False\<rparr>) = None"
proof -
  have f: "flagged example_result" by (simp add: example_result_def)
  have k: "map fst (categories example_result) = all_categories"
    by (simp add: example_result_def comp_def)
  have dist: "distinct (map fst (categories example_result))"
    unfolding k by (simp add: all_categories_def)
  from analyzeResult_flaggedCategories [of example_result, THEN conjunct1, rule_format, OF f] k obtain a
    where a: "analyzeResult example_result = Some a"
      and s: "flaggedCategories a = flaggedCategories_spec example_result"
    by blast
  have "flaggedCategories a = [HARASSMENT]"
    using a example_result_analysis by auto
  with a s have 1: "\<exists>a. analyzeResult example_result = Some a \<and> flaggedCategories a = [HARASSMENT] \<and>
        flaggedCategories a = flaggedCategories_spec example_result"
    by blast
  let ?r = "example_result\<lparr>categories := uniform_object False\<rparr>"
  have f2: "flagged ?r" by (simp add: example_result_def)
  have n2: "\<forall>p \<in> set (categories ?r). \<not> snd p" by (auto simp: uniform_object_def)
  from analyzeResult_flaggedCategories [of ?r, THEN conjunct1, rule_format, OF f2] n2 obtain b
    where "analyzeResult ?r = Some b" and "flaggedCategories b = []"
    by blast
  then have 2: "\<exists>a. analyzeResult ?r = Some a \<and> flaggedCategories a = []" by blast
  have 3: "list_all (\<lambda>p. \<not> snd p) (categories ?r)" using n2 by (simp add: list_all_iff)
  have n: "\<not> flagged (example_result\<lparr>flagged := False\<rparr>)" by simp
  note 4 = analyzeResult_flaggedCategories [of "example_result\<lparr>flagged := False\<rparr>",
      THEN conjunct2, rule_format, OF n]
  show ?thesis by (intro conjI) (rule f k dist 1 f2 3 2 n 4)+
qed

lemma reordered_well_formed: "well_formed_object (categories reordered_result)"
  unfolding well_formed_object_def reordered_result_def all_categories_def
  by (simp add: comp_def) blast

text \<open>
  Claim C2 as stated fails in two ways. For a result that is not flagged the block is
  skipped and no list is computed, although a category is set. For a flagged result whose
  \<^verbatim>\<open>categories\<close> object lists \<^verbatim>\<open>harassment\<close> before \<^verbatim>\<open>sexual\<close>, the list follows the
  object and not the enumeration.
\<close>

theorem analyzeResult_flaggedCategories_counterexample:
  "\<not> flagged unflagged_result \<and> analyzeResult unflagged_result = None \<and>
   flaggedCategories_spec unflagged_result = [VIOLENCE] \<and>
   flagged reordered_result \<and> well_formed_object (categories reordered_result) \<and>
   map_option flaggedCategories (analyzeResult reordered_result) = Some [HARASSMENT, SEXUAL] \<and>
   flaggedCategories_spec reordered_result = [SEXUAL, HARASSMENT]"
  using reordered_well_formed
  by (simp add: analyzeResult_def unflagged_result_def reordered_result_def all_categories_def
      flaggedCategories_spec_def high_score_def is_flagged_def category_of_def)


section \<open>Properties of the two functions on the store\<close>

lemma entries_of_categories_run:
  "a < length h \<Longrightarrow> h ! a = CategoriesObject ps \<Longrightarrow>
     entries_of_categories a h = Inr (length h, h @ [BoolEntries ps])"
  by (simp add: entries_of_categories_def bind_prog_def read_cell_def alloc_cell_def)

lemma entries_of_scores_run:
  "a < length h \<Longrightarrow> h ! a = ScoresObject ps \<Longrightarrow>
     entries_of_scores a h = Inr (length h, h @ [ScoreEntries ps])"
  by (simp add: entries_of_scores_def bind_prog_def read_cell_def alloc_cell_def)

lemma filter_bool_entries_run:
  "a < length h \<Longrightarrow> h ! a = BoolEntries es \<Longrightarrow>
     filter_bool_entries p a h = Inr (length h, h @ [BoolEntries (filter p es)])"
  by (simp add: filter_bool_entries_def bind_prog_def read_cell_def alloc_cell_def)

lemma map_bool_entries_run:
  "a < length h \<Longrightarrow> h ! a = BoolEntries es \<Longrightarrow>
     map_bool_entries f a h = Inr (length h, h @ [CategoryArray (map f es)])"
  by (simp add: map_bool_entries_def bind_prog_def read_cell_def alloc_cell_def)

lemma filter_score_entries_run:
  "a < length h \<Longrightarrow> h ! a = ScoreEntries es \<Longrightarrow>
     filter_score_entries p a h = Inr (length h, h @ [ScoreEntries (filter p es)])"
  by (simp add: filter_score_entries_def bind_prog_def read_cell_def alloc_cell_def)

lemma sort_score_entries_run:
  "a < length h \<Longrightarrow> h ! a = ScoreEntries es \<Longrightarrow>
     sort_score_entries cmp a h = Inr (a, h[a := ScoreEntries (array_sort cmp es)])"
  by (simp add: sort_score_entries_def bind_prog_def read_cell_def write_cell_def pure_prog_def)

lemma slice_score_entries_run:
  "a < length h \<Longrightarrow> h ! a = ScoreEntries es \<Longrightarrow>
     slice_score_entries n a h = Inr (length h, h @ [ScoreEntries (take n es)])"
  by (simp add: slice_score_entries_def bind_prog_def read_cell_def alloc_cell_def)

lemma analyzeResult_store_flagged:
  assumes a: "a < length h" and r: "h ! a = ResultObject True c s t"
    and c: "c < length h" "h ! c = CategoriesObject ps"
    and s: "s < length h" "h ! s = ScoresObject qs"
  shows "analyzeResult_store a h =
           Inr (Some (length h + 2, length h + 5),
                h @ [BoolEntries ps,
                     BoolEntries (filter is_flagged ps),
                     CategoryArray (map category_of (filter is_flagged ps)),
                     ScoreEntries qs,
                     ScoreEntries (array_sort compare_scores (filter high_score qs)),
                     ScoreEntries (take 3 (array_sort compare_scores (filter high_score qs)))])"
proof -
  define A where "A = BoolEntries ps"
  define B where "B = BoolEntries (filter is_flagged ps)"
  define C where "C = CategoryArray (map category_of (filter is_flagged ps))"
  define D where "D = ScoreEntries qs"
  define E where "E = ScoreEntries (filter high_score qs)"
  define E' where "E' = ScoreEntries (array_sort compare_scores (filter high_score qs))"
  define F where "F = ScoreEntries (take 3 (array_sort compare_scores (filter high_score qs)))"
  define n where "n = length h"
  have 1: "entries_of_categories c h = Inr (n, h @ [A])"
    using c by (simp add: entries_of_categories_run A_def n_def)
  have 2: "filter_bool_entries is_flagged n (h @ [A]) = Inr (Suc n, h @ [A, B])"
    using filter_bool_entries_run [of n "h @ [A]" ps is_flagged] by (simp add: A_def B_def n_def)
  have 3: "map_bool_entries category_of (Suc n) (h @ [A, B]) = Inr (Suc (Suc n), h @ [A, B, C])"
    using map_bool_entries_run [of "Suc n" "h @ [A, B]" "filter is_flagged ps" category_of]
    by (simp add: B_def C_def n_def nth_append)
  have 4: "entries_of_scores s (h @ [A, B, C]) = Inr (Suc (Suc (Suc n)), h @ [A, B, C, D])"
    using entries_of_scores_run [of s "h @ [A, B, C]" qs] s
    by (simp add: D_def n_def nth_append)
  have 5: "filter_score_entries high_score (Suc (Suc (Suc n))) (h @ [A, B, C, D])
             = Inr (Suc (Suc (Suc (Suc n))), h @ [A, B, C, D, E])"
    using filter_score_entries_run [of "Suc (Suc (Suc n))" "h @ [A, B, C, D]" qs high_score]
    by (simp add: D_def E_def n_def nth_append)
  have 6: "sort_score_entries compare_scores (Suc (Suc (Suc (Suc n)))) (h @ [A, B, C, D, E])
             = Inr (Suc (Suc (Suc (Suc n))), h @ [A, B, C, D, E'])"
    using sort_score_entries_run [of "Suc (Suc (Suc (Suc n)))" "h @ [A, B, C, D, E]"
        "filter high_score qs" compare_scores]
    by (simp add: E_def E'_def n_def nth_append list_update_append)
  have 7: "slice_score_entries 3 (Suc (Suc (Suc (Suc n)))) (h @ [A, B, C, D, E'])
             = Inr (Suc (Suc (Suc (Suc (Suc n)))), h @ [A, B, C, D, E', F])"
    using slice_score_entries_run [of "Suc (Suc (Suc (Suc n)))" "h @ [A, B, C, D, E']"
        "array_sort compare_scores (filter high_score qs)" 3]
    by (simp add: E'_def F_def n_def nth_append)
  have "analyzeResult_store a h
          = Inr (Some (Suc (Suc n), Suc (Suc (Suc (Suc (Suc n))))), h @ [A, B, C, D, E', F])"
    unfolding analyzeResult_store_def
    using a by (simp add: bind_prog_def read_cell_def r 1 2 3 4 5 6 7 pure_prog_def)
  then show ?thesis
    unfolding A_def B_def C_def D_def E'_def F_def n_def by simp
qed

lemma analyzeResult_store_unflagged:
  assumes "a < length h" and "h ! a = ResultObject False c s t"
  shows "analyzeResult_store a h = Inr (None, h)"
  using assms by (simp add: analyzeResult_store_def bind_prog_def read_cell_def pure_prog_def)

lemma well_typed_resultD:
  assumes "well_typed_result h a"
  obtains f c s t ps qs ts where "a < length h" "h ! a = ResultObject f c s t"
    "c < length h" "h ! c = CategoriesObject ps"
    "s < length h" "h ! s = ScoresObject qs"
    "t < length h" "h ! t = InputTypesObject ts"
  using assms unfolding well_typed_result_def
  by (auto split: cell.splits)

lemma well_typed_result_extend:
  assumes "well_typed_result h a"
  shows "well_typed_result (h @ h') a \<and> load_result (h @ h') a = load_result h a"
proof -
  from assms obtain f c s t ps qs ts where *: "a < length h" "h ! a = ResultObject f c s t"
    "c < length h" "h ! c = CategoriesObject ps"
    "s < length h" "h ! s = ScoresObject qs"
    "t < length h" "h ! t = InputTypesObject ts"
    by (rule well_typed_resultD)
  then show ?thesis
    by (simp add: well_typed_result_def load_result_def nth_append)
qed

lemma analyzeResult_store_run:
  assumes wt: "well_typed_result h a"
  shows "\<exists>out ext. analyzeResult_store a h = Inr (out, h @ ext) \<and>
           view_analysis (h @ ext) out = analyzeResult (load_result h a)"
proof -
  from wt obtain f c s t ps qs ts where *: "a < length h" "h ! a = ResultObject f c s t"
    "c < length h" "h ! c = CategoriesObject ps"
    "s < length h" "h ! s = ScoresObject qs"
    "t < length h" "h ! t = InputTypesObject ts"
    by (rule well_typed_resultD)
  show ?thesis
  proof (cases f)
    case True
    with * have "analyzeResult_store a h =
         Inr (Some (length h + 2, length h + 5),
              h @ [BoolEntries ps,
                   BoolEntries (filter is_flagged ps),
                   CategoryArray (map category_of (filter is_flagged ps)),
                   ScoreEntries qs,
                   ScoreEntries (array_sort compare_scores (filter high_score qs)),
                   ScoreEntries (take 3 (array_sort compare_scores (filter high_score qs)))])"
      by (intro analyzeResult_store_flagged) simp_all
    moreover have "analyzeResult (load_result h a) =
        Some \<lparr>flaggedCategories = map category_of (filter is_flagged ps),
              highScores = take 3 (array_sort compare_scores (filter high_score qs))\<rparr>"
      using * True by (simp add: analyzeResult_def load_result_def)
    ultimately show ?thesis
      by (simp add: view_analysis_def nth_append)
  next
    case False
    with * have "analyzeResult_store a h = Inr (None, h)"
      by (intro analyzeResult_store_unflagged) simp_all
    moreover have "analyzeResult (load_result h a) = None"
      using * False by (simp add: analyzeResult_def load_result_def)
    ultimately have "analyzeResult_store a h = Inr (None, h @ []) \<and>
          view_analysis (h @ []) None = analyzeResult (load_result h a)"
      by (simp add: view_analysis_def)
    then show ?thesis by blast
  qed
qed

text \<open>
  Claim C7. On a store in which the reference points to a well-typed result, a call of
  the analyzer returns, leaves every cell that existed before the call as it was (the
  result object, its three inner objects, and anything else: the only cell it overwrites
  is the array that \<^verbatim>\<open>filter\<close> has just allocated), and yields the analysis of the pure
  model. A second call on the store left by the first one yields the same analysis, and
  again changes no cell that existed before.
\<close>

theorem analyzeResult_store_frame:
  assumes "well_typed_result h a"
  shows "\<exists>out h'. analyzeResult_store a h = Inr (out, h') \<and>
           take (length h) h' = h \<and>
           load_result h' a = load_result h a \<and>
           view_analysis h' out = analyzeResult (load_result h a) \<and>
           (\<exists>out2 h2. analyzeResult_store a h' = Inr (out2, h2) \<and>
              view_analysis h2 out2 = view_analysis h' out \<and>
              take (length h) h2 = h \<and> load_result h2 a = load_result h a)"
proof -
  from analyzeResult_store_run [OF assms] obtain out ext where
    1: "analyzeResult_store a h = Inr (out, h @ ext)"
    and v: "view_analysis (h @ ext) out = analyzeResult (load_result h a)"
    by blast
  have wt': "well_typed_result (h @ ext) a" and l': "load_result (h @ ext) a = load_result h a"
    using well_typed_result_extend [OF assms, of ext] by simp_all
  from analyzeResult_store_run [OF wt'] obtain out2 ext2 where
    2: "analyzeResult_store a (h @ ext) = Inr (out2, (h @ ext) @ ext2)"
    and v2: "view_analysis ((h @ ext) @ ext2) out2 = analyzeResult (load_result (h @ ext) a)"
    by blast
  have l2: "load_result ((h @ ext) @ ext2) a = load_result h a"
    using well_typed_result_extend [OF wt', of ext2] l' by simp
  have t1: "take (length h) (h @ ext) = h" by simp
  have t2: "take (length h) ((h @ ext) @ ext2) = h" by simp
  have v3: "view_analysis ((h @ ext) @ ext2) out2 = view_analysis (h @ ext) out"
    using v v2 l' by simp
  from 1 t1 l' v 2 v3 t2 l2 show ?thesis by blast
qed

lemma get_prop_run:
  "a < length h \<Longrightarrow> h ! a = InfoObject ps \<Longrightarrow>
     get_prop a k h = Inr (case map_of ps k of None \<Rightarrow> Undefined | Some v \<Rightarrow> v, h)"
  by (simp add: get_prop_def bind_prog_def read_cell_def pure_prog_def)

lemma number_field_Some: "number_field ps k = Some n \<longleftrightarrow> map_of ps k = Some (NumV n)"
  by (auto simp: number_field_def split: option.splits jsval.splits)

lemma number_field_None:
  "optional_number ps k \<Longrightarrow> number_field ps k = None \<Longrightarrow>
     (case map_of ps k of None \<Rightarrow> Undefined | Some v \<Rightarrow> v) = Undefined"
  by (auto simp: number_field_def optional_number_def split: option.splits jsval.splits)

lemma string_field_Some: "string_field ps k = Some s \<longleftrightarrow> map_of ps k = Some (StrV s)"
  by (auto simp: string_field_def split: option.splits jsval.splits)

lemma string_field_None:
  "optional_string ps k \<Longrightarrow> string_field ps k = None \<Longrightarrow>
     (case map_of ps k of None \<Rightarrow> Undefined | Some v \<Rightarrow> v) = Undefined"
  by (auto simp: string_field_def optional_string_def split: option.splits jsval.splits)

lemma dimension_store_run:
  assumes a: "a < length h" "h ! a = InfoObject ps"
    and rk: "optional_number ps rk" and lk: "optional_number ps lk" and sk: "optional_string ps sk"
  shows "dimension_store a rk lk sk thr w h =
           Inr ((case (number_field ps rk, number_field ps lk) of
                   (Some remaining, Some limit) \<Rightarrow>
                     (let ratio = js_div remaining limit in
                      if js_lt ratio thr \<and> truthy (string_field ps sk)
                      then max w (parseTimeToMs (string_of (string_field ps sk))) else w)
                 | _ \<Rightarrow> w), h)"
proof -
  note g = get_prop_run [OF a]
  show ?thesis
  proof (cases "number_field ps rk")
    case None
    with number_field_None [OF rk None] show ?thesis
      by (simp add: dimension_store_def bind_prog_def g pure_prog_def)
  next
    case r: (Some r)
    then have mr: "map_of ps rk = Some (NumV r)" by (simp add: number_field_Some)
    show ?thesis
    proof (cases "number_field ps lk")
      case None
      with number_field_None [OF lk None] r show ?thesis
        by (simp add: dimension_store_def bind_prog_def g pure_prog_def)
    next
      case l: (Some l)
      then have ml: "map_of ps lk = Some (NumV l)" by (simp add: number_field_Some)
      show ?thesis
      proof (cases "string_field ps sk")
        case None
        with string_field_None [OF sk None] r l mr ml show ?thesis
          by (simp add: dimension_store_def bind_prog_def g pure_prog_def as_number_def
              truthy_def js_truthy_def)
      next
        case (Some s)
        then have ms: "map_of ps sk = Some (StrV s)" by (simp add: string_field_Some)
        with Some r l mr ml show ?thesis
          by (simp add: dimension_store_def bind_prog_def g pure_prog_def as_number_def truthy_def
              js_truthy_def parseTimeToMs_js_def string_of_def)
      qed
    qed
  qed
qed

lemma dimension_store_max:
  assumes a: "a < length h" "h ! a = InfoObject ps"
    and rk: "optional_number ps rk" and lk: "optional_number ps lk" and sk: "optional_string ps sk"
    and w: "0 \<le> w"
  shows "dimension_store a rk lk sk thr w h =
           Inr (max w (or_zero (candidate_wait (number_field ps rk) (number_field ps lk)
                                  (string_field ps sk) thr)), h)"
  unfolding dimension_store_run [OF a rk lk sk] dimension_step [OF w] ..

lemma shouldWaitForRateLimit_store_run:
  assumes a: "a < length h" "h ! a = InfoObject ps" and wt: "well_typed_info ps"
  shows "shouldWaitForRateLimit_store a thr h = Inr (shouldWaitForRateLimit (load_info ps) thr, h)"
proof -
  from wt have t: "optional_number ps ''limitRequests''" "optional_number ps ''limitTokens''"
    "optional_number ps ''remainingRequests''" "optional_number ps ''remainingTokens''"
    "optional_string ps ''resetRequests''" "optional_string ps ''resetTokens''"
    by (simp_all add: well_typed_info_def)
  define c1 where "c1 = or_zero (candidate_wait (number_field ps ''remainingRequests'')
      (number_field ps ''limitRequests'') (string_field ps ''resetRequests'') thr)"
  define c2 where "c2 = or_zero (candidate_wait (number_field ps ''remainingTokens'')
      (number_field ps ''limitTokens'') (string_field ps ''resetTokens'') thr)"
  have n1: "0 \<le> c1" unfolding c1_def by (rule or_zero_candidate_nonneg)
  have d1: "dimension_store a ''remainingRequests'' ''limitRequests'' ''resetRequests'' thr 0 h
              = Inr (c1, h)"
    using dimension_store_max [OF a t(3) t(1) t(5), of 0 thr] n1 by (simp add: c1_def)
  have d2: "dimension_store a ''remainingTokens'' ''limitTokens'' ''resetTokens'' thr c1 h
              = Inr (max c1 c2, h)"
    using dimension_store_max [OF a t(4) t(2) t(6) n1, of thr] by (simp add: c2_def)
  have "shouldWaitForRateLimit_store a thr h = Inr (max c1 c2, h)"
    by (simp add: shouldWaitForRateLimit_store_def bind_prog_def pure_prog_def d1 d2)
  moreover have "shouldWaitForRateLimit (load_info ps) thr = max c1 c2"
    by (simp add: shouldWait_max load_info_def c1_def c2_def)
  ultimately show ?thesis by simp
qed

lemma load_info_same_fields:
  assumes "same_fields ps ps'"
  shows "load_info ps = load_info ps'" and "well_typed_info ps \<longleftrightarrow> well_typed_info ps'"
  using assms
  by (simp_all add: same_fields_def rate_limit_fields_def load_info_def well_typed_info_def
      number_field_def string_field_def optional_number_def optional_string_def)

text \<open>
  Claim C8. On a store in which the reference points to an object whose six documented
  properties are well typed, a call of the advisor returns the value of the pure model
  on those six properties and the store it was given, unchanged. Any other object with
  the same six properties, in any store, gives the same value, whatever further
  properties it has; and the pure model ignores the extension of the record.
\<close>

theorem shouldWaitForRateLimit_store_frame:
  assumes "a < length h" and "h ! a = InfoObject ps" and "well_typed_info ps"
  shows "shouldWaitForRateLimit_store a threshold h
           = Inr (shouldWaitForRateLimit (load_info ps) threshold, h) \<and>
         (\<forall>h' a' ps'. a' < length h' \<longrightarrow> h' ! a' = InfoObject ps' \<longrightarrow> same_fields ps ps' \<longrightarrow>
            shouldWaitForRateLimit_store a' threshold h'
              = Inr (shouldWaitForRateLimit (load_info ps) threshold, h')) \<and>
         shouldWaitForRateLimit (RateLimitInfo.extend (load_info ps) x) threshold
           = shouldWaitForRateLimit (load_info ps) threshold"
proof -
  have 1: "shouldWaitForRateLimit_store a threshold h
           = Inr (shouldWaitForRateLimit (load_info ps) threshold, h)"
    using assms by (rule shouldWaitForRateLimit_store_run)
  have 2: "shouldWaitForRateLimit_store a' threshold h'
              = Inr (shouldWaitForRateLimit (load_info ps) threshold, h')"
    if "a' < length h'" "h' ! a' = InfoObject ps'" "same_fields ps ps'" for h' a' ps'
  proof -
    have "well_typed_info ps'" using load_info_same_fields(2) [OF that(3)] assms(3) by simp
    from shouldWaitForRateLimit_store_run [OF that(1,2) this, of threshold]
    show ?thesis using load_info_same_fields(1) [OF that(3)] by simp
  qed
  have 3: "shouldWaitForRateLimit (RateLimitInfo.extend (load_info ps) x) threshold
           = shouldWaitForRateLimit (load_info ps) threshold"
    by (simp add: shouldWait_max RateLimitInfo.defs)
  from 1 2 3 show ?thesis by blast
qed


lemma example_store_result:
  "well_typed_result example_store 3" "load_result example_store 3 = example_result"
  by (simp_all add: example_store_def well_typed_result_def load_result_def example_result_def)

lemma example_info_value:
  "shouldWaitForRateLimit
     (load_info [(''limitRequests'', NumV (Fin 100)), (''remainingRequests'', NumV (Fin 5)),
                 (''resetRequests'', StrV ''30s''), (''retryAfter'', NumV (Fin 7))])
     default_threshold = enat 30000"
  by (simp add: shouldWait_max load_info_def number_field_def string_field_def candidate_wait_def
      or_zero_def js_div_def js_lt_def default_threshold_def parse_30s)

lemma example_info_typed:
  "well_typed_info [(''limitRequests'', NumV (Fin 100)), (''remainingRequests'', NumV (Fin 5)),
                 (''resetRequests'', StrV ''30s''), (''retryAfter'', NumV (Fin 7))]"
  by (simp add: well_typed_info_def optional_number_def optional_string_def)

lemma ill_typed_reset_fails:
  "shouldWaitForRateLimit_store 0 default_threshold
     [InfoObject [(''limitRequests'', NumV (Fin 100)), (''remainingRequests'', NumV (Fin 5)),
                  (''resetRequests'', NumV (Fin 30))]] = Inl WrongType"
  by (simp add: shouldWaitForRateLimit_store_def dimension_store_def get_prop_def bind_prog_def
      pure_prog_def read_cell_def as_number_def js_truthy_def parseTimeToMs_js_def fail_prog_def
      js_div_def js_lt_def default_threshold_def)

theorem analyzeResult_store_frame_witness:
  "well_typed_result example_store 3 \<and>
   (\<exists>out h'. analyzeResult_store 3 example_store = Inr (out, h') \<and>
      take (length example_store) h' = example_store \<and>
      view_analysis h' out =
        Some \<lparr>flaggedCategories = [HARASSMENT],
              highScores = [(HARASSMENT, 9 / 10), (SEXUAL_MINORS, 3 / 10),
                            (HARASSMENT_THREATENING, 3 / 10)]\<rparr> \<and>
      (\<exists>out2 h2. analyzeResult_store 3 h' = Inr (out2, h2) \<and>
         view_analysis h2 out2 = view_analysis h' out \<and>
         take (length example_store) h2 = example_store))"
proof -
  note w = example_store_result(1)
  from analyzeResult_store_frame [OF w] obtain out h' where
    "analyzeResult_store 3 example_store = Inr (out, h')"
    "take (length example_store) h' = example_store"
    "view_analysis h' out = analyzeResult (load_result example_store 3)"
    "\<exists>out2 h2. analyzeResult_store 3 h' = Inr (out2, h2) \<and>
         view_analysis h2 out2 = view_analysis h' out \<and>
         take (length example_store) h2 = example_store"
    by blast
  then show ?thesis
    using w unfolding example_store_result(2) example_result_analysis by blast
qed

theorem shouldWaitForRateLimit_store_frame_witness:
  "4 < length example_store \<and>
   example_store ! 4 =
     InfoObject [(''limitRequests'', NumV (Fin 100)), (''remainingRequests'', NumV (Fin 5)),
                 (''resetRequests'', StrV ''30s''), (''retryAfter'', NumV (Fin 7))] \<and>
   well_typed_info [(''limitRequests'', NumV (Fin 100)), (''remainingRequests'', NumV (Fin 5)),
                 (''resetRequests'', StrV ''30s''), (''retryAfter'', NumV (Fin 7))] \<and>
   shouldWaitForRateLimit_store 4 default_threshold example_store = Inr (enat 30000, example_store) \<and>
   same_fields [(''limitRequests'', NumV (Fin 100)), (''remainingRequests'', NumV (Fin 5)),
                 (''resetRequests'', StrV ''30s''), (''retryAfter'', NumV (Fin 7))]
               [(''resetRequests'', StrV ''30s''), (''remainingRequests'', NumV (Fin 5)),
                (''limitRequests'', NumV (Fin 100))] \<and>
   shouldWaitForRateLimit_store 0 default_threshold
     [InfoObject [(''resetRequests'', StrV ''30s''), (''remainingRequests'', NumV (Fin 5)),
                  (''limitRequests'', NumV (Fin 100))]]
     = Inr (enat 30000, [InfoObject [(''resetRequests'', StrV ''30s''), (''remainingRequests'', NumV (Fin 5)),
                  (''limitRequests'', NumV (Fin 100))]])"
proof -
  let ?ps = "[(''limitRequests'', NumV (Fin 100)), (''remainingRequests'', NumV (Fin 5)),
                 (''resetRequests'', StrV ''30s''), (''retryAfter'', NumV (Fin 7))]"
  let ?ps' = "[(''resetRequests'', StrV ''30s''), (''remainingRequests'', NumV (Fin 5)),
                (''limitRequests'', NumV (Fin 100))]"
  have a: "4 < length example_store" by (simp add: example_store_def)
  have o: "example_store ! 4 = InfoObject ?ps" by (simp add: example_store_def)
  have s: "same_fields ?ps ?ps'" by (simp add: same_fields_def rate_limit_fields_def)
  have a': "0 < length [InfoObject ?ps']" and o': "[InfoObject ?ps'] ! 0 = InfoObject ?ps'"
    by simp_all
  note f = shouldWaitForRateLimit_store_frame [OF a o example_info_typed, of default_threshold]
  note f1 = f [THEN conjunct1]
  note f2 = f [THEN conjunct2, THEN conjunct1, rule_format, OF a' o' s]
  have 1: "shouldWaitForRateLimit_store 4 default_threshold example_store
      = Inr (enat 30000, example_store)"
    using f1 by (simp only: example_info_value)
  have 2: "shouldWaitForRateLimit_store 0 default_threshold [InfoObject ?ps']
      = Inr (enat 30000, [InfoObject ?ps'])"
    using f2 by (simp only: example_info_value)
  show ?thesis
    by (intro conjI) (rule a o example_info_typed 1 s 2)+
qed

text \<open>
  Claim C6. None of the three functions has a failing branch on a well-typed input: the
  parser returns on every string, the advisor on every object whose six documented
  properties are well typed, and the analyzer on every well-typed result. The pure models
  are total functions (their recursions terminate); on the store, where a value of
  another type or a missing object is an error, the calls return a value.
\<close>

theorem kernel_returns:
  "parseTimeToMs_js (StrV s) h = Inr (parseTimeToMs s, h) \<and>
   (a < length h \<longrightarrow> h ! a = InfoObject ps \<longrightarrow> well_typed_info ps \<longrightarrow>
      (\<exists>w. shouldWaitForRateLimit_store a threshold h = Inr (w, h))) \<and>
   (well_typed_result h r \<longrightarrow> (\<exists>out h'. analyzeResult_store r h = Inr (out, h')))"
proof -
  have 1: "parseTimeToMs_js (StrV s) h = Inr (parseTimeToMs s, h)"
    by (simp add: parseTimeToMs_js_def pure_prog_def)
  have 2: "\<exists>w. shouldWaitForRateLimit_store a threshold h = Inr (w, h)"
    if "a < length h" "h ! a = InfoObject ps" "well_typed_info ps"
    using shouldWaitForRateLimit_store_run [OF that] by blast
  have 3: "\<exists>out h'. analyzeResult_store r h = Inr (out, h')" if "well_typed_result h r"
    using analyzeResult_store_run [OF that] by blast
  from 1 2 3 show ?thesis by blast
qed

theorem kernel_returns_witness:
  "parseTimeToMs_js (StrV ''2m'') example_store = Inr (enat 120000, example_store) \<and>
   4 < length example_store \<and>
   example_store ! 4 =
     InfoObject [(''limitRequests'', NumV (Fin 100)), (''remainingRequests'', NumV (Fin 5)),
                 (''resetRequests'', StrV ''30s''), (''retryAfter'', NumV (Fin 7))] \<and>
   well_typed_info [(''limitRequests'', NumV (Fin 100)), (''remainingRequests'', NumV (Fin 5)),
                 (''resetRequests'', StrV ''30s''), (''retryAfter'', NumV (Fin 7))] \<and>
   (\<exists>w. shouldWaitForRateLimit_store 4 default_threshold example_store = Inr (w, example_store)) \<and>
   well_typed_result example_store 3 \<and>
   (\<exists>out h'. analyzeResult_store 3 example_store = Inr (out, h'))"
proof -
  let ?ps = "[(''limitRequests'', NumV (Fin 100)), (''remainingRequests'', NumV (Fin 5)),
                 (''resetRequests'', StrV ''30s''), (''retryAfter'', NumV (Fin 7))]"
  have a: "4 < length example_store" by (simp add: example_store_def)
  have o: "example_store ! 4 = InfoObject ?ps" by (simp add: example_store_def)
  note p = parse_2m
  note k = kernel_returns [of "''2m''" example_store 4 ?ps default_threshold 3]
  from k p have 1: "parseTimeToMs_js (StrV ''2m'') example_store = Inr (enat 120000, example_store)"
    by simp
  from k a o example_info_typed
  have 2: "\<exists>w. shouldWaitForRateLimit_store 4 default_threshold example_store = Inr (w, example_store)"
    by blast
  from k example_store_result(1)
  have 3: "\<exists>out h'. analyzeResult_store 3 example_store = Inr (out, h')"
    by blast
  from 1 a o example_info_typed 2 example_store_result(1) 3 show ?thesis by blast
qed


end
